theory Spec2Isabelle
  imports Complex_Main "HOL-Library.AList"
begin

section \<open>Numbers and errors\<close>

text \<open>
  The module computes with float64 values (Python floats, numpy arrays). A finite value is
  idealised as an exact real (\<open>Fin\<close>); the infinities and NaN of IEEE 754 are kept, since
  numpy's division by zero does not raise: it returns them. Zero has no sign here, so
  \<open>x / 0\<close> is \<open>+inf\<close> for every positive \<open>x\<close>.
\<close>

datatype fnum = Fin real | PInf | NInf | NaN

fun is_finite :: "fnum \<Rightarrow> bool" where
  "is_finite (Fin r) = True"
| "is_finite PInf = False"
| "is_finite NInf = False"
| "is_finite NaN = False"

fun fneg :: "fnum \<Rightarrow> fnum" where
  "fneg (Fin r) = Fin (- r)"
| "fneg PInf = NInf"
| "fneg NInf = PInf"
| "fneg NaN = NaN"

fun fabs :: "fnum \<Rightarrow> fnum" where
  "fabs (Fin r) = Fin \<bar>r\<bar>"
| "fabs PInf = PInf"
| "fabs NInf = PInf"
| "fabs NaN = NaN"

fun fadd :: "fnum \<Rightarrow> fnum \<Rightarrow> fnum" where
  "fadd NaN y = NaN"
| "fadd x NaN = NaN"
| "fadd (Fin a) (Fin b) = Fin (a + b)"
| "fadd (Fin a) y = y"
| "fadd x (Fin b) = x"
| "fadd PInf PInf = PInf"
| "fadd NInf NInf = NInf"
| "fadd PInf NInf = NaN"
| "fadd NInf PInf = NaN"

definition fsub :: "fnum \<Rightarrow> fnum \<Rightarrow> fnum" where
  "fsub x y = fadd x (fneg y)"

text \<open>An infinity times a finite value: the sign of the finite factor decides, zero gives NaN.\<close>

definition inf_times :: "fnum \<Rightarrow> real \<Rightarrow> fnum" where
  "inf_times i r = (if 0 < r then i else if r < 0 then fneg i else NaN)"

fun fmul :: "fnum \<Rightarrow> fnum \<Rightarrow> fnum" where
  "fmul NaN y = NaN"
| "fmul x NaN = NaN"
| "fmul (Fin a) (Fin b) = Fin (a * b)"
| "fmul (Fin a) y = inf_times y a"
| "fmul x (Fin b) = inf_times x b"
| "fmul PInf PInf = PInf"
| "fmul NInf NInf = PInf"
| "fmul PInf NInf = NInf"
| "fmul NInf PInf = NInf"

fun fdiv :: "fnum \<Rightarrow> fnum \<Rightarrow> fnum" where
  "fdiv NaN y = NaN"
| "fdiv x NaN = NaN"
| "fdiv (Fin a) (Fin b) =
     (if b \<noteq> 0 then Fin (a / b) else if 0 < a then PInf else if a < 0 then NInf else NaN)"
| "fdiv (Fin a) y = Fin 0"
| "fdiv x (Fin b) = (if b < 0 then fneg x else x)"
| "fdiv x y = NaN"

fun fsqrt :: "fnum \<Rightarrow> fnum" where
  "fsqrt (Fin r) = (if 0 \<le> r then Fin (sqrt r) else NaN)"
| "fsqrt PInf = PInf"
| "fsqrt NInf = NaN"
| "fsqrt NaN = NaN"

fun fsin :: "fnum \<Rightarrow> fnum" where
  "fsin (Fin r) = Fin (sin r)"
| "fsin x = NaN"

fun fcos :: "fnum \<Rightarrow> fnum" where
  "fcos (Fin r) = Fin (cos r)"
| "fcos x = NaN"

type_synonym vec = "fnum list"

text \<open>
  The exceptions the Python code can raise, followed by the three error kinds that the
  specification names. \<open>EngineError\<close> stands for any exception raised inside a call of the
  physics engine.
\<close>

datatype error =
    KeyError | IndexError | ValueError | TypeError | AttributeError | EngineError
  | NotLoadedError | MalformedTreeError | DegenerateAxisError

section \<open>The physics engine\<close>

text \<open>
  The engine (pybullet) is an external collaborator. It is modelled as a store of body
  poses with counters for the collision shapes, the visual shapes and the bodies created
  so far; each kind is numbered on its own. A pose query or reset on an absent handle
  (Python's \<open>None\<close>) is taken to raise inside the engine, and so is one on an id without
  a body. The store keeps a position and an orientation as they are passed; what the engine
  does to them beyond that (it normalises the quaternion) is not part of the model.
\<close>

record engine =
  pose_of :: "int \<Rightarrow> (vec \<times> vec) option"
  shapes :: nat
  visual_shapes :: nat
  bodies :: nat

definition getBasePositionAndOrientation :: "engine \<Rightarrow> int option \<Rightarrow> error + (vec \<times> vec)" where
  "getBasePositionAndOrientation eng b =
     (case b of None \<Rightarrow> Inl EngineError
      | Some h \<Rightarrow> (case pose_of eng h of None \<Rightarrow> Inl EngineError | Some po \<Rightarrow> Inr po))"

definition resetBasePositionAndOrientation ::
  "engine \<Rightarrow> int option \<Rightarrow> vec \<Rightarrow> vec \<Rightarrow> error + engine" where
  "resetBasePositionAndOrientation eng b pos orn =
     (case b of None \<Rightarrow> Inl EngineError
      | Some h \<Rightarrow> (case pose_of eng h of None \<Rightarrow> Inl EngineError
          | Some po \<Rightarrow> Inr (eng\<lparr>pose_of := (pose_of eng)(h \<mapsto> (pos, orn))\<rparr>)))"

definition createCollisionShape :: "engine \<Rightarrow> int \<times> engine" where
  "createCollisionShape eng = (int (shapes eng), eng\<lparr>shapes := Suc (shapes eng)\<rparr>)"

definition createVisualShape :: "engine \<Rightarrow> int \<times> engine" where
  "createVisualShape eng =
     (int (visual_shapes eng), eng\<lparr>visual_shapes := Suc (visual_shapes eng)\<rparr>)"

text \<open>A new body gets the next id and pybullet's default pose.\<close>

definition createMultiBody :: "engine \<Rightarrow> int \<times> engine" where
  "createMultiBody eng =
     (int (bodies eng),
      eng\<lparr>pose_of := (pose_of eng)(int (bodies eng) \<mapsto>
             ([Fin 0, Fin 0, Fin 0], [Fin 0, Fin 0, Fin 0, Fin 1])),
          bodies := Suc (bodies eng)\<rparr>)"

definition creation_calls :: "engine \<Rightarrow> nat" where
  "creation_calls eng = shapes eng + visual_shapes eng + bodies eng"

section \<open>Class Object\<close>

text \<open>
  \<open>Object.__init__\<close> sets \<open>body_id = None\<close> and \<open>loaded = False\<close>. A subclass is an
  extension of the record; its \<open>_load\<close> is the parameter \<open>L\<close> of \<open>load\<close>, which may
  change the subclass fields (\<open>self.mass\<close>, \<open>self.cid\<close>) and the engine.
\<close>

record Object =
  body_id :: "int option"
  loaded :: bool

definition Object_init :: Object where
  "Object_init = \<lparr>body_id = None, loaded = False\<rparr>"

type_synonym 'a loader =
  "'a Object_scheme \<Rightarrow> engine \<Rightarrow> error + (int \<times> 'a Object_scheme \<times> engine)"

definition load ::
  "'a loader \<Rightarrow> 'a Object_scheme \<Rightarrow> engine \<Rightarrow> error + (int option \<times> 'a Object_scheme \<times> engine)" where
  "load L self eng =
     (if loaded self then Inr (body_id self, self, eng)
      else (case L self eng of
              Inl e \<Rightarrow> Inl e
            | Inr (b, self1, eng1) \<Rightarrow>
                Inr (Some b, self1\<lparr>body_id := Some b, loaded := True\<rparr>, eng1)))"

definition get_position :: "'a Object_scheme \<Rightarrow> engine \<Rightarrow> error + vec" where
  "get_position self eng =
     (case getBasePositionAndOrientation eng (body_id self) of
        Inl e \<Rightarrow> Inl e | Inr (pos, orn) \<Rightarrow> Inr pos)"

definition get_orientation :: "'a Object_scheme \<Rightarrow> engine \<Rightarrow> error + vec" where
  "get_orientation self eng =
     (case getBasePositionAndOrientation eng (body_id self) of
        Inl e \<Rightarrow> Inl e | Inr (pos, orn) \<Rightarrow> Inr orn)"

definition set_position :: "'a Object_scheme \<Rightarrow> vec \<Rightarrow> engine \<Rightarrow> error + engine" where
  "set_position self pos eng =
     (case getBasePositionAndOrientation eng (body_id self) of
        Inl e \<Rightarrow> Inl e
      | Inr (p0, old_orn) \<Rightarrow> resetBasePositionAndOrientation eng (body_id self) pos old_orn)"

definition set_orientation :: "'a Object_scheme \<Rightarrow> vec \<Rightarrow> engine \<Rightarrow> error + engine" where
  "set_orientation self orn eng =
     (case getBasePositionAndOrientation eng (body_id self) of
        Inl e \<Rightarrow> Inl e
      | Inr (old_pos, o0) \<Rightarrow> resetBasePositionAndOrientation eng (body_id self) old_pos orn)"

definition set_position_orientation ::
  "'a Object_scheme \<Rightarrow> vec \<Rightarrow> vec \<Rightarrow> engine \<Rightarrow> error + engine" where
  "set_position_orientation self pos orn eng =
     resetBasePositionAndOrientation eng (body_id self) pos orn"

text \<open>
  The methods of \<open>Object\<close> as one transition on the pair of the object and the engine: the
  state a call leaves behind, whether it returns or raises. A call that raises leaves the
  object as it was; the engine is taken as it was then, too.
\<close>

datatype invocation =
    Load | Get_position | Get_orientation
  | Set_position vec | Set_orientation vec | Set_position_orientation vec vec

fun engine_after :: "engine \<Rightarrow> error + engine \<Rightarrow> engine" where
  "engine_after eng (Inl e) = eng"
| "engine_after eng (Inr eng1) = eng1"

fun call :: "'a loader \<Rightarrow> invocation \<Rightarrow> 'a Object_scheme \<times> engine \<Rightarrow> 'a Object_scheme \<times> engine" where
  "call L Load (self, eng) =
     (case load L self eng of Inl e \<Rightarrow> (self, eng) | Inr (b, self1, eng1) \<Rightarrow> (self1, eng1))"
| "call L Get_position (self, eng) = (self, eng)"
| "call L Get_orientation (self, eng) = (self, eng)"
| "call L (Set_position pos) (self, eng) = (self, engine_after eng (set_position self pos eng))"
| "call L (Set_orientation orn) (self, eng) =
     (self, engine_after eng (set_orientation self orn eng))"
| "call L (Set_position_orientation pos orn) (self, eng) =
     (self, engine_after eng (set_position_orientation self pos orn eng))"

subsection \<open>Class BoxShape\<close>

record BoxShape = Object +
  basePos :: vec
  dimension :: vec
  visual_only :: bool
  mass :: fnum
  color :: vec

definition BoxShape_init :: "vec \<Rightarrow> vec \<Rightarrow> bool \<Rightarrow> fnum \<Rightarrow> vec \<Rightarrow> BoxShape" where
  "BoxShape_init pos dims vo m c =
     \<lparr>body_id = None, loaded = False,
      basePos = pos, dimension = dims, visual_only = vo, mass = m, color = c\<rparr>"

text \<open>
  \<open>BoxShape._load\<close>: both branches of \<open>visual_only\<close> create one body; they differ in the
  arguments of the creation call only, which the store does not record.
\<close>

definition BoxShape_load :: "'a BoxShape_scheme \<Rightarrow> engine \<Rightarrow>
    error + (int \<times> 'a BoxShape_scheme \<times> engine)" where
  "BoxShape_load self eng =
     (let (colBoxId, eng1) = createCollisionShape eng;
          (visualShapeId, eng2) = createVisualShape eng1;
          (b, eng3) = createMultiBody eng2
      in (case resetBasePositionAndOrientation eng3 (Some b) (basePos self)
                 [Fin 0, Fin 0, Fin 0, Fin 1] of
            Inl e \<Rightarrow> Inl e
          | Inr eng4 \<Rightarrow> Inr (b, self, eng4)))"

definition engine0 :: engine where
  "engine0 = \<lparr>pose_of = Map.empty, shapes = 0, visual_shapes = 0, bodies = 0\<rparr>"

definition box0 :: BoxShape where
  "box0 = BoxShape_init [Fin 1, Fin 2, Fin 3] [Fin 1, Fin 2, Fin 3] False (Fin 1000)
            [Fin 1, Fin 1, Fin 1, Fin 1]"

definition box1 :: BoxShape where
  "box1 = box0\<lparr>body_id := Some 0, loaded := True\<rparr>"

definition engine1 :: engine where
  "engine1 = \<lparr>pose_of = [0 \<mapsto> ([Fin 1, Fin 2, Fin 3], [Fin 0, Fin 0, Fin 0, Fin 1])],
               shapes = 1, visual_shapes = 1, bodies = 1\<rparr>"

text \<open>
  The object is consistent when it is loaded exactly if it holds a body handle. The
  constructor establishes this and every method keeps it.
\<close>

definition consistent :: "'a Object_scheme \<Rightarrow> bool" where
  "consistent self = (loaded self = (body_id self \<noteq> None))"

section \<open>The kinematic tree\<close>

text \<open>
  The tree is the element tree that \<open>ET.parse\<close> returns: an element has a tag, a
  dictionary of attributes (in insertion order) and a list of children. An attribute
  value is a string. The code parses the values of four keys (\<open>scale\<close>, \<open>xyz\<close>, \<open>rpy\<close>
  and \<open>bounding_box\<close>) and compares or copies all others (names, links, file names).
  Under a key that the code parses, \<open>Nums v\<close> is a string whose space-separated fields all
  parse with \<open>float\<close>, holding the parsed values, and \<open>Text s\<close> is any other string; the
  code writes values back with \<open>' '.join(map(str, ...))\<close>, which parses to the same values
  again. \<open>Nums []\<close> is the empty string that \<open>join\<close> makes of an empty vector, and
  \<open>float\<close> rejects it. Under every other key the value is \<open>Text s\<close> with the string as
  it stands, whether or not it looks like a number: two names are equal when their strings
  are.
\<close>

datatype attr = Text string | Nums vec

type_synonym attrs = "(string \<times> attr) list"

datatype element = Element (tag: string) (attrib: attrs) (children: "element list")

text \<open>\<open>[float(val) for val in a.split(" ")]\<close>\<close>

fun floats :: "attr \<Rightarrow> error + vec" where
  "floats (Text s) = Inl ValueError"
| "floats (Nums []) = Inl ValueError"
| "floats (Nums (x # xs)) = Inr (x # xs)"

definition err_bind :: "error + 'a \<Rightarrow> ('a \<Rightarrow> error + 'b) \<Rightarrow> error + 'b" where
  "err_bind m f = (case m of Inl e \<Rightarrow> Inl e | Inr x \<Rightarrow> f x)"

text \<open>
  numpy's element-wise operations on one-dimensional arrays: equal lengths, or one of the
  two has length one and is broadcast; any other pair of shapes raises \<open>ValueError\<close>.
\<close>

definition broadcast :: "(fnum \<Rightarrow> fnum \<Rightarrow> fnum) \<Rightarrow> vec \<Rightarrow> vec \<Rightarrow> error + vec" where
  "broadcast f xs ys =
     (if length xs = length ys then Inr (map2 f xs ys)
      else if length xs = 1 then Inr (map (f (hd xs)) ys)
      else if length ys = 1 then Inr (map (\<lambda>x. f x (hd ys)) xs)
      else Inl ValueError)"

definition np_multiply :: "vec \<Rightarrow> vec \<Rightarrow> error + vec" where
  "np_multiply = broadcast fmul"

definition np_divide :: "vec \<Rightarrow> vec \<Rightarrow> error + vec" where
  "np_divide = broadcast fdiv"

definition np_subtract :: "vec \<Rightarrow> vec \<Rightarrow> error + vec" where
  "np_subtract = broadcast fsub"

definition np_absolute :: "vec \<Rightarrow> vec" where
  "np_absolute v = map fabs v"

text \<open>\<open>np.linalg.norm\<close> of a one-dimensional array.\<close>

definition norm_vec :: "vec \<Rightarrow> fnum" where
  "norm_vec v = fsqrt (foldr fadd (map (\<lambda>x. fmul x x) v) (Fin 0))"

subsection \<open>The three updates of lines 276 to 316\<close>

text \<open>Lines 277 to 283: a mesh without a scale gets the scale, one with a scale has it multiplied.\<close>

definition scale_mesh :: "vec \<Rightarrow> attrs \<Rightarrow> error + attrs" where
  "scale_mesh scale a =
     (case map_of a ''scale'' of
        None \<Rightarrow> Inr (AList.update ''scale'' (Nums scale) a)
      | Some v \<Rightarrow>
          err_bind (floats v) (\<lambda>current_scale.
          err_bind (np_multiply current_scale scale) (\<lambda>new_scale.
          Inr (AList.update ''scale'' (Nums new_scale) a))))"

text \<open>Lines 286 to 288 and 300 to 302: \<open>origin.attrib["xyz"]\<close> raises when the key is missing.\<close>

definition scale_origin :: "vec \<Rightarrow> attrs \<Rightarrow> error + attrs" where
  "scale_origin scale a =
     (case map_of a ''xyz'' of
        None \<Rightarrow> Inl KeyError
      | Some v \<Rightarrow>
          err_bind (floats v) (\<lambda>current_origin_xyz.
          err_bind (np_multiply current_origin_xyz scale) (\<lambda>new_origin_xyz.
          Inr (AList.update ''xyz'' (Nums new_origin_xyz) a))))"

text \<open>Lines 313 to 316: scale the axis and divide it by its norm.\<close>

definition scale_axis :: "vec \<Rightarrow> attrs \<Rightarrow> error + attrs" where
  "scale_axis scale a =
     (case map_of a ''xyz'' of
        None \<Rightarrow> Inl KeyError
      | Some v \<Rightarrow>
          err_bind (floats v) (\<lambda>current_axis_xyz.
          err_bind (np_multiply current_axis_xyz scale) (\<lambda>new_axis_xyz.
          Inr (AList.update ''xyz''
                 (Nums (map (\<lambda>x. fdiv x (norm_vec new_axis_xyz)) new_axis_xyz)) a))))"

subsection \<open>Iteration over a subtree\<close>

text \<open>
  \<open>for x in e.iter(t): x.attrib = f(x.attrib)\<close>: the element itself and all its
  descendants that carry the tag \<open>t\<close>, in document order; the first exception ends the
  iteration.
\<close>

fun iter_update :: "string \<Rightarrow> (attrs \<Rightarrow> error + attrs) \<Rightarrow> element \<Rightarrow> error + element"
  and iter_update_list ::
    "string \<Rightarrow> (attrs \<Rightarrow> error + attrs) \<Rightarrow> element list \<Rightarrow> error + element list" where
  "iter_update t f (Element tg a cs) =
     (case (if tg = t then f a else Inr a) of
        Inl e \<Rightarrow> Inl e
      | Inr a' \<Rightarrow>
          (case iter_update_list t f cs of
             Inl e \<Rightarrow> Inl e
           | Inr cs' \<Rightarrow> Inr (Element tg a' cs')))"
| "iter_update_list t f [] = Inr []"
| "iter_update_list t f (c # cs) =
     (case iter_update t f c of
        Inl e \<Rightarrow> Inl e
      | Inr c' \<Rightarrow>
          (case iter_update_list t f cs of
             Inl e \<Rightarrow> Inl e
           | Inr cs' \<Rightarrow> Inr (c' # cs')))"

text \<open>The body of the loop of line 274, for one \<open>xml_child\<close>: lines 276 to 288.\<close>

definition scale_elements :: "vec \<Rightarrow> element \<Rightarrow> error + element" where
  "scale_elements scale xml_child =
     err_bind (iter_update ''mesh'' (scale_mesh scale) xml_child)
       (iter_update ''origin'' (scale_origin scale))"

fun nodes :: "element \<Rightarrow> nat" and nodes_list :: "element list \<Rightarrow> nat" where
  "nodes (Element tg a cs) = Suc (nodes_list cs)"
| "nodes_list [] = 0"
| "nodes_list (c # cs) = nodes c + nodes_list cs"

lemma iter_update_nodes:
  "iter_update t f e = Inr e' \<Longrightarrow> nodes e' = nodes e"
  "iter_update_list t f es = Inr es' \<Longrightarrow> nodes_list es' = nodes_list es"
  by (induction t f e and t f es arbitrary: e' and es' rule: iter_update_iter_update_list.induct)
     (auto split: sum.splits if_splits)

lemma scale_elements_nodes: "scale_elements s e = Inr e' \<Longrightarrow> nodes e' = nodes e"
  by (auto simp: scale_elements_def err_bind_def iter_update_nodes split: sum.splits)

lemma nodes_children: "nodes_list (children e) < nodes e"
  by (cases e) simp

lemma nodes_pos: "0 < nodes e"
  by (cases e) simp

text \<open>
  Line 274, \<open>for xml_child in parent_link.iter()\<close>: the link and each of its descendants
  in document order is an \<open>xml_child\<close>, and the body runs on the whole subtree of each. The
  iteration reaches the children of an element after the body has run on that element.
\<close>

function rescale_link :: "vec \<Rightarrow> element \<Rightarrow> error + element"
  and rescale_links :: "vec \<Rightarrow> element list \<Rightarrow> error + element list" where
  "rescale_link scale e =
     (case scale_elements scale e of
        Inl x \<Rightarrow> Inl x
      | Inr e' \<Rightarrow>
          (case rescale_links scale (children e') of
             Inl x \<Rightarrow> Inl x
           | Inr cs' \<Rightarrow> Inr (Element (tag e') (attrib e') cs')))"
| "rescale_links scale [] = Inr []"
| "rescale_links scale (c # cs) =
     (case rescale_link scale c of
        Inl x \<Rightarrow> Inl x
      | Inr c' \<Rightarrow>
          (case rescale_links scale cs of
             Inl x \<Rightarrow> Inl x
           | Inr cs' \<Rightarrow> Inr (c' # cs')))"
  by pat_completeness auto
termination
proof (relation "measure (\<lambda>x. case x of Inl (s, e) \<Rightarrow> 2 * nodes e
                                        | Inr (s, es) \<Rightarrow> Suc (2 * nodes_list es))")
  show "wf (measure (\<lambda>x. case x of Inl (s, e) \<Rightarrow> 2 * nodes e
                                    | Inr (s, es) \<Rightarrow> Suc (2 * nodes_list es)))"
    by simp
next
  fix scale :: vec and e e'
  assume "scale_elements scale e = Inr e'"
  then have "nodes e' = nodes e"
    by (rule scale_elements_nodes)
  moreover have "nodes_list (children e') < nodes e'"
    by (rule nodes_children)
  ultimately show "(Inr (scale, children e'), Inl (scale, e))
      \<in> measure (\<lambda>x. case x of Inl (s, e) \<Rightarrow> 2 * nodes e
                              | Inr (s, es) \<Rightarrow> Suc (2 * nodes_list es))"
    by simp
next
  fix scale :: vec and c cs
  show "(Inl (scale, c), Inr (scale, c # cs))
      \<in> measure (\<lambda>x. case x of Inl (s, e) \<Rightarrow> 2 * nodes e
                              | Inr (s, es) \<Rightarrow> Suc (2 * nodes_list es))"
    by simp
next
  fix scale :: vec and c cs
  have "0 < nodes c"
    by (rule nodes_pos)
  then show "(Inr (scale, cs), Inr (scale, c # cs))
      \<in> measure (\<lambda>x. case x of Inl (s, e) \<Rightarrow> 2 * nodes e
                              | Inr (s, es) \<Rightarrow> Suc (2 * nodes_list es))"
    by simp
qed

declare rescale_link.simps [simp del]

subsection \<open>Selecting links and joints\<close>

text \<open>
  \<open>[x for x in self.object_tree.findall(t) if p(x)]\<close>: the children of the root with tag
  \<open>t\<close> for which the test holds, in document order. The test runs on every child with the
  tag, and an exception in it ends the comprehension. The elements selected are named by
  their positions among the children of the root.
\<close>

fun select :: "string \<Rightarrow> (element \<Rightarrow> error + bool) \<Rightarrow> element list \<Rightarrow> nat \<Rightarrow> error + nat list" where
  "select t p [] i = Inr []"
| "select t p (c # cs) i =
     (if tag c = t then
        (case p c of
           Inl e \<Rightarrow> Inl e
         | Inr b \<Rightarrow>
             (case select t p cs (Suc i) of
                Inl e \<Rightarrow> Inl e
              | Inr js \<Rightarrow> Inr (if b then i # js else js)))
      else select t p cs (Suc i))"

text \<open>\<open>link.attrib["name"] == parent_link_name\<close>\<close>

definition has_name :: "attr \<Rightarrow> element \<Rightarrow> error + bool" where
  "has_name parent_link_name link =
     (case map_of (attrib link) ''name'' of
        None \<Rightarrow> Inl KeyError
      | Some v \<Rightarrow> Inr (v = parent_link_name))"

text \<open>
  \<open>e.find(t).attrib["link"]\<close>: the first child with the tag; \<open>find\<close> returns \<open>None\<close>
  when there is none, and the attribute access on it raises \<open>AttributeError\<close>.
\<close>

definition link_of :: "string \<Rightarrow> element \<Rightarrow> error + attr" where
  "link_of t e =
     (case find (\<lambda>c. tag c = t) (children e) of
        None \<Rightarrow> Inl AttributeError
      | Some c \<Rightarrow> (case map_of (attrib c) ''link'' of None \<Rightarrow> Inl KeyError | Some v \<Rightarrow> Inr v))"

text \<open>
  \<open>joint.find("parent").attrib["link"] == parent_link.attrib["name"]\<close>, where the name
  of the parent link is the name it was selected by.
\<close>

definition has_parent :: "attr \<Rightarrow> element \<Rightarrow> error + bool" where
  "has_parent parent_link_name joint =
     err_bind (link_of ''parent'' joint) (\<lambda>v. Inr (v = parent_link_name))"

definition set_child :: "element \<Rightarrow> nat \<Rightarrow> element \<Rightarrow> element" where
  "set_child e i c = Element (tag e) (attrib e) ((children e)[i := c])"

subsection \<open>The rotation of the scale\<close>

type_synonym rotation = "fnum \<times> fnum \<times> fnum \<Rightarrow> fnum \<Rightarrow> fnum \<Rightarrow> fnum \<Rightarrow> bool \<Rightarrow> vec"

text \<open>
  Modelled from the spec: \<open>rotate_vector_3d\<close> of \<open>gibson2.utils.utils\<close>, which is not among
  the sources. The specification (4.1) gives it as a 3D Euler rotation composed in a fixed
  axis order, with a flag for the winding. Here the rotation is \<open>Rz(yaw) Ry(pitch) Rx(roll)\<close>,
  and the counter-clockwise winding applies its transpose, that is the inverse rotations
  in the opposite order.
\<close>

definition rot_x :: "fnum \<Rightarrow> fnum \<times> fnum \<times> fnum \<Rightarrow> fnum \<times> fnum \<times> fnum" where
  "rot_x r v = (case v of (x, y, z) \<Rightarrow>
     (x, fsub (fmul (fcos r) y) (fmul (fsin r) z), fadd (fmul (fsin r) y) (fmul (fcos r) z)))"

definition rot_y :: "fnum \<Rightarrow> fnum \<times> fnum \<times> fnum \<Rightarrow> fnum \<times> fnum \<times> fnum" where
  "rot_y p v = (case v of (x, y, z) \<Rightarrow>
     (fadd (fmul (fcos p) x) (fmul (fsin p) z), y, fsub (fmul (fcos p) z) (fmul (fsin p) x)))"

definition rot_z :: "fnum \<Rightarrow> fnum \<times> fnum \<times> fnum \<Rightarrow> fnum \<times> fnum \<times> fnum" where
  "rot_z y v = (case v of (x, y', z) \<Rightarrow>
     (fsub (fmul (fcos y) x) (fmul (fsin y) y'), fadd (fmul (fsin y) x) (fmul (fcos y) y'), z))"

definition rotate_vector_3d :: rotation where
  "rotate_vector_3d v r p y cck =
     (case (if cck then rot_x (fneg r) (rot_y (fneg p) (rot_z (fneg y) v))
            else rot_z y (rot_y p (rot_x r v))) of
        (a, b, c) \<Rightarrow> [a, b, c])"

text \<open>
  Lines 306 to 309. The call unpacks \<open>rpy\<close> into three arguments (any other count raises
  \<open>TypeError\<close>), and the matrix product in \<open>rotate_vector_3d\<close> needs a scale of three
  components.
\<close>

definition rotate_scale :: "rotation \<Rightarrow> vec \<Rightarrow> attr \<Rightarrow> error + vec" where
  "rotate_scale rot scale a =
     err_bind (floats a) (\<lambda>joint_frame_rot.
       (case joint_frame_rot of
          [r, p, y] \<Rightarrow>
            (case scale of
               [sx, sy, sz] \<Rightarrow> Inr (np_absolute (rot (sx, sy, sz) r p y True))
             | _ \<Rightarrow> Inl ValueError)
        | _ \<Rightarrow> Inl TypeError))"

subsection \<open>The traversal\<close>

text \<open>
  The state of the loop of line 271: the tree (mutated in place by the code), the current
  scale and \<open>parent_link_name\<close>.
\<close>

type_synonym loop_state = "element \<times> vec \<times> attr option"

text \<open>
  Lines 299 to 320, the body of \<open>for joint_new in joint_news\<close>. \<open>j\<close> is the position of
  \<open>joint_new\<close> and \<open>j0\<close> the position of \<open>joint_news[0]\<close> among the children of the root.
  The axes of the whole tree are rescaled, not only those of the joint.
\<close>

definition joint_step :: "rotation \<Rightarrow> nat \<Rightarrow> nat \<Rightarrow> element \<Rightarrow> vec \<Rightarrow> error + loop_state" where
  "joint_step rot j0 j tree scale =
     err_bind (iter_update ''origin'' (scale_origin scale) (children tree ! j)) (\<lambda>joint_new.
     err_bind (case map_of (attrib joint_new) ''rpy'' of
                 None \<Rightarrow> Inr scale
               | Some a \<Rightarrow> rotate_scale rot scale a) (\<lambda>scale'.
     err_bind (iter_update ''axis'' (scale_axis scale') (set_child tree j joint_new)) (\<lambda>tree'.
     err_bind (link_of ''child'' (children tree' ! j0)) (\<lambda>child.
     Inr (tree', scale', Some child)))))"

fun for_joints :: "rotation \<Rightarrow> nat \<Rightarrow> nat list \<Rightarrow> loop_state \<Rightarrow> error + loop_state" where
  "for_joints rot j0 [] st = Inr st"
| "for_joints rot j0 (j # js) (tree, scale, parent_link_name) =
     err_bind (joint_step rot j0 j tree scale) (for_joints rot j0 js)"

text \<open>
  Lines 272 to 322, one pass of the \<open>while\<close> loop. Indexing the list of links with the name
  by \<open>[0]\<close> raises \<open>IndexError\<close> when there is none.
\<close>

definition loop_body :: "rotation \<Rightarrow> element \<Rightarrow> vec \<Rightarrow> attr \<Rightarrow> error + loop_state" where
  "loop_body rot tree scale parent_link_name =
     err_bind (select ''link'' (has_name parent_link_name) (children tree) 0) (\<lambda>links.
       (case links of
          [] \<Rightarrow> Inl IndexError
        | l # ls \<Rightarrow>
            err_bind (rescale_link scale (children tree ! l)) (\<lambda>parent_link.
            let tree1 = set_child tree l parent_link in
            err_bind (select ''joint'' (has_parent parent_link_name) (children tree1) 0)
              (\<lambda>joint_news.
                 (case joint_news of
                    [] \<Rightarrow> Inr (tree1, scale, None)
                  | j0 # js \<Rightarrow> for_joints rot j0 (j0 # js) (tree1, scale, Some parent_link_name))))))"

text \<open>
  The loop of line 271. The code has no bound on the number of passes (joints that lead
  back to a link already visited make it run forever), so the model takes a bound:
  \<open>None\<close> says that the loop has not ended within it, \<open>Some (Inl e)\<close> that it raised.
\<close>

fun while_loop :: "nat \<Rightarrow> rotation \<Rightarrow> element \<Rightarrow> vec \<Rightarrow> attr option \<Rightarrow> (error + element \<times> vec) option" where
  "while_loop k rot tree scale None = Some (Inr (tree, scale))"
| "while_loop 0 rot tree scale (Some n) = None"
| "while_loop (Suc k) rot tree scale (Some n) =
     (case loop_body rot tree scale n of
        Inl e \<Rightarrow> Some (Inl e)
      | Inr (tree', scale', next) \<Rightarrow> while_loop k rot tree' scale' next)"

subsection \<open>The constructor of InteractiveObj2\<close>

text \<open>
  Lines 259 to 322 of \<open>InteractiveObj2.__init__\<close>. \<open>xml_element\<close> is the attribute
  dictionary of the scene element, \<open>data\<close> the content of \<open>misc/bbox.json\<close> (its numbers
  taken as floats) and \<open>object_tree\<close> the parsed model as lines 252 and 253 leave it:
  they put the model path before the \<open>filename\<close> of every mesh and raise \<open>KeyError\<close>
  where a mesh has none, so every mesh of \<open>object_tree\<close> has a \<open>filename\<close>. The result is
  \<open>self.object_tree\<close>. The constructor makes no call of the engine.
\<close>

definition base_scale :: "attr \<Rightarrow> (string \<times> vec) list \<Rightarrow> error + vec" where
  "base_scale bb data =
     err_bind (floats bb) (\<lambda>bounding_box.
       (case map_of data ''max'' of
          None \<Rightarrow> Inl KeyError
        | Some bbox_max \<Rightarrow>
            (case map_of data ''min'' of
               None \<Rightarrow> Inl KeyError
             | Some bbox_min \<Rightarrow>
                 err_bind (np_subtract bbox_max bbox_min) (\<lambda>original_bbox.
                 np_divide bounding_box original_bbox))))"

definition InteractiveObj2_init ::
  "nat \<Rightarrow> rotation \<Rightarrow> attrs \<Rightarrow> (string \<times> vec) list \<Rightarrow> element \<Rightarrow> (error + element) option" where
  "InteractiveObj2_init k rot xml_element data object_tree =
     (case map_of xml_element ''bounding_box'' of
        None \<Rightarrow> Some (Inr object_tree)
      | Some bb \<Rightarrow>
          (case base_scale bb data of
             Inl e \<Rightarrow> Some (Inl e)
           | Inr scale \<Rightarrow>
               map_option (map_sum id fst)
                 (while_loop k rot object_tree scale (Some (Text ''base_link'')))))"

section \<open>Vocabulary of the properties\<close>

subsection \<open>What a pass leaves alone\<close>

text \<open>
  Two trees agree off a list of tags when they have the same shape and the same tags, and
  every element whose tag is not in the list has the same attributes in both. The
  traversal changes attributes of \<open>mesh\<close>, \<open>origin\<close> and \<open>axis\<close> elements only, so
  everything it reads to find its way (names, parents, children, \<open>rpy\<close>) stays as it is.
  \<open>all_tagged t Q e\<close>: the attributes of every element with tag \<open>t\<close> in the subtree of
  \<open>e\<close> satisfy \<open>Q\<close>.
\<close>

fun agree_off :: "string list \<Rightarrow> element \<Rightarrow> element \<Rightarrow> bool" where
  "agree_off T (Element tg a cs) (Element tg' a' cs') =
     (tg = tg' \<and> (tg \<in> set T \<or> a = a') \<and> list_all2 (agree_off T) cs cs')"

fun all_tagged :: "string \<Rightarrow> (attrs \<Rightarrow> bool) \<Rightarrow> element \<Rightarrow> bool" where
  "all_tagged t Q (Element tg a cs) = ((tg \<noteq> t \<or> Q a) \<and> list_all (all_tagged t Q) cs)"

text \<open>
  \<open>rpy_of tree j\<close> is the \<open>rpy\<close> attribute of the child at position \<open>j\<close> of the root, if
  it has one. A tree has no rotation when no joint below the root has an \<open>rpy\<close>
  attribute; joints elsewhere are not joints for the code (line 294 looks for them with
  \<open>findall\<close>).
\<close>

definition rpy_of :: "element \<Rightarrow> nat \<Rightarrow> attr option" where
  "rpy_of tree j = map_of (attrib (children tree ! j)) ''rpy''"

definition no_rpy :: "element \<Rightarrow> bool" where
  "no_rpy tree = list_all (\<lambda>c. tag c \<noteq> ''joint'' \<or> map_of (attrib c) ''rpy'' = None) (children tree)"

subsection \<open>Errors of the code and errors of the specification\<close>

text \<open>
  The exceptions that Python, numpy or the engine raise, as against the three error kinds
  that only the specification names.
\<close>

fun py_exception :: "error \<Rightarrow> bool" where
  "py_exception NotLoadedError = False"
| "py_exception MalformedTreeError = False"
| "py_exception DegenerateAxisError = False"
| "py_exception e = True"

subsection \<open>Vectors of three components\<close>

text \<open>
  \<open>fin3\<close>: a vector of three finite components. \<open>nz3\<close>: moreover none of them is zero.
  \<open>inv3\<close> is the component-wise inverse, \<open>mulv\<close> the component-wise product of vectors of
  equal length and \<open>normalise\<close> the division of a vector by its norm, as lines 314 and 315
  do it. \<open>sum_sq\<close> is the sum of squares under the root of \<open>norm_vec\<close>.
\<close>

fun fin3 :: "vec \<Rightarrow> bool" where
  "fin3 [Fin a, Fin b, Fin c] = True"
| "fin3 v = False"

fun nz3 :: "vec \<Rightarrow> bool" where
  "nz3 [Fin a, Fin b, Fin c] = (a \<noteq> 0 \<and> b \<noteq> 0 \<and> c \<noteq> 0)"
| "nz3 v = False"

definition inv3 :: "vec \<Rightarrow> vec" where
  "inv3 s = map (fdiv (Fin 1)) s"

definition mulv :: "vec \<Rightarrow> vec \<Rightarrow> vec" where
  "mulv s v = map2 fmul v s"

definition normalise :: "vec \<Rightarrow> vec" where
  "normalise v = map (\<lambda>x. fdiv x (norm_vec v)) v"

definition sum_sq :: "vec \<Rightarrow> fnum" where
  "sum_sq v = foldr fadd (map (\<lambda>x. fmul x x) v) (Fin 0)"

text \<open>
  The numbers of the model are exact, those of the code are float64: a product or a
  quotient of the code is the exact one rounded, unless it overflows or underflows. A
  number is \<open>ranged\<close> when it is zero or its magnitude lies between \<open>2^-200\<close> and \<open>2^200\<close>.
  The product of two ranged numbers, the square of such a product and a sum of three such
  squares are zero or lie between \<open>2^-800\<close> and \<open>2^802\<close>, well inside the normal range of
  float64, so that on ranged operands the code differs from the model by rounding only.
  \<open>ranged3\<close>: a vector of three ranged components.
\<close>

definition ranged :: "real \<Rightarrow> bool" where
  "ranged r = (r = 0 \<or> (1 / 2 ^ 200 \<le> \<bar>r\<bar> \<and> \<bar>r\<bar> \<le> 2 ^ 200))"

fun ranged3 :: "vec \<Rightarrow> bool" where
  "ranged3 [Fin a, Fin b, Fin c] = (ranged a \<and> ranged b \<and> ranged c)"
| "ranged3 v = False"

subsection \<open>Axes that have been normalised\<close>




subsection \<open>Well-formed trees and their readings\<close>

text \<open>
  The elements the traversal writes to are those with tag \<open>mesh\<close>, \<open>origin\<close> or \<open>axis\<close>.
  The value of a mesh is its scale, (1,1,1) when it has none; the value of an origin or an
  axis is its \<open>xyz\<close>. \<open>readings\<close> lists the values of a tree in document order. In a
  well-formed tree every mesh scale that is present and every \<open>xyz\<close> of an origin or an
  axis is a vector of three finite components, and every axis has magnitude 1. In a
  ranged tree all these values are ranged.
\<close>

definition numeric :: "string \<Rightarrow> bool" where
  "numeric tg = (tg = ''mesh'' \<or> tg = ''origin'' \<or> tg = ''axis'')"

definition value_of :: "string \<Rightarrow> attrs \<Rightarrow> vec" where
  "value_of tg a =
     (if tg = ''mesh'' then
        (case map_of a ''scale'' of Some (Nums v) \<Rightarrow> v | _ \<Rightarrow> [Fin 1, Fin 1, Fin 1])
      else (case map_of a ''xyz'' of Some (Nums v) \<Rightarrow> v | _ \<Rightarrow> []))"

definition wf_value :: "string \<Rightarrow> vec \<Rightarrow> bool" where
  "wf_value tg v = (fin3 v \<and> (tg \<noteq> ''axis'' \<or> norm_vec v = Fin 1))"

definition wf_node :: "string \<Rightarrow> attrs \<Rightarrow> bool" where
  "wf_node tg a =
     (if tg = ''mesh'' then
        (case map_of a ''scale'' of None \<Rightarrow> True | Some (Nums v) \<Rightarrow> fin3 v | Some (Text x) \<Rightarrow> False)
      else if tg = ''origin'' \<or> tg = ''axis'' then
        (case map_of a ''xyz'' of Some (Nums v) \<Rightarrow> wf_value tg v | _ \<Rightarrow> False)
      else True)"

fun wf_tree :: "element \<Rightarrow> bool" where
  "wf_tree (Element tg a cs) = (wf_node tg a \<and> list_all wf_tree cs)"

fun ranged_tree :: "element \<Rightarrow> bool" where
  "ranged_tree (Element tg a cs) =
     ((\<not> numeric tg \<or> ranged3 (value_of tg a)) \<and> list_all ranged_tree cs)"

fun readings :: "element \<Rightarrow> (string \<times> vec) list" where
  "readings (Element tg a cs) =
     (if numeric tg then [(tg, value_of tg a)] else []) @ concat (map readings cs)"

subsection \<open>The updates that a run applies\<close>

text \<open>
  \<open>applied s tg\<close> is the update of lines 276 to 316 for the scale \<open>s\<close> at an element with
  tag \<open>tg\<close>, as a total function of the attributes: what \<open>scale_mesh\<close>, \<open>scale_origin\<close> or
  \<open>scale_axis\<close> returns, the attributes as they are where the update raises, and the
  identity at every other tag. \<open>value_fn\<close> is what it does to the value of a well-formed
  element.
\<close>

definition applied :: "vec \<Rightarrow> string \<Rightarrow> attrs \<Rightarrow> attrs" where
  "applied s tg a =
     (case (if tg = ''mesh'' then scale_mesh s a
            else if tg = ''origin'' then scale_origin s a
            else if tg = ''axis'' then scale_axis s a
            else Inr a) of
        Inl e \<Rightarrow> a
      | Inr a' \<Rightarrow> a')"

definition value_fn :: "vec \<Rightarrow> string \<Rightarrow> vec \<Rightarrow> vec" where
  "value_fn s tg v = (if tg = ''axis'' then normalise (mulv s v) else mulv s v)"

text \<open>
  A plan says, for the element with tag \<open>tg\<close> at the path \<open>p\<close> (the positions from the root
  downwards), with which scales it is updated, in order. \<open>upd L tree\<close> is the tree in
  which every element has been updated as the plan \<open>L\<close> says. \<open>plan_all Q L\<close>: every
  scale of the plan satisfies \<open>Q\<close>.
\<close>

type_synonym plan = "nat list \<Rightarrow> string \<Rightarrow> vec list"

fun upd :: "plan \<Rightarrow> element \<Rightarrow> element"
  and upds :: "plan \<Rightarrow> nat \<Rightarrow> element list \<Rightarrow> element list" where
  "upd L (Element tg a cs) = Element tg (fold (\<lambda>s. applied s tg) (L [] tg) a) (upds L 0 cs)"
| "upds L i [] = []"
| "upds L i (c # cs) = upd (\<lambda>p. L (i # p)) c # upds L (Suc i) cs"

definition plan_all :: "(vec \<Rightarrow> bool) \<Rightarrow> plan \<Rightarrow> bool" where
  "plan_all Q L = (\<forall>p tg. list_all Q (L p tg))"

text \<open>
  The plans of the parts of one pass. \<open>p_none\<close>: no update. \<open>p_tag t s\<close>: one update with
  \<open>s\<close> at every element with tag \<open>t\<close> (one \<open>iter\<close> loop). \<open>p_once s\<close>: one update at
  every mesh and origin (lines 276 to 288 for one \<open>xml_child\<close>). \<open>p_link s\<close>: the loop of
  line 274 over a link, which updates a mesh or an origin once for itself and once for
  every ancestor inside the link. \<open>at_child l L\<close>: the plan \<open>L\<close> below the child \<open>l\<close> of the
  root and nothing elsewhere. \<open>p_then L1 L2\<close>: first \<open>L1\<close>, then \<open>L2\<close>.
\<close>

definition p_none :: plan where
  "p_none = (\<lambda>p tg. [])"

definition p_tag :: "string \<Rightarrow> vec \<Rightarrow> plan" where
  "p_tag t s = (\<lambda>p tg. if tg = t then [s] else [])"

definition p_once :: "vec \<Rightarrow> plan" where
  "p_once s = (\<lambda>p tg. if tg = ''mesh'' \<or> tg = ''origin'' then [s] else [])"

definition p_link :: "vec \<Rightarrow> plan" where
  "p_link s = (\<lambda>p tg. if tg = ''mesh'' \<or> tg = ''origin'' then replicate (Suc (length p)) s else [])"

definition at_child :: "nat \<Rightarrow> plan \<Rightarrow> plan" where
  "at_child l L = (\<lambda>p tg. case p of [] \<Rightarrow> [] | i # q \<Rightarrow> if i = l then L q tg else [])"

definition p_then :: "plan \<Rightarrow> plan \<Rightarrow> plan" where
  "p_then L1 L2 = (\<lambda>p tg. L1 p tg @ L2 p tg)"

definition inv_plan :: "plan \<Rightarrow> plan" where
  "inv_plan L = (\<lambda>p tg. map inv3 (L p tg))"

text \<open>
  What a run reads from the shape of the tree and the \<open>rpy\<close> attributes of its joints.
  \<open>joints_plan\<close>: the loop over the joints of one link (lines 299 to 320), where the joint
  at position \<open>j\<close> has its origins updated with the scale as it stands, the scale is
  re-expressed by the rotation of the joint if it declares one, and every axis of the tree
  is updated with the result; it returns the plan and the scale after the last joint.
  \<open>step_plan\<close>: one pass of the \<open>while\<close> loop, which returns the plan, the scale handed
  on and the next link. \<open>run_plan\<close>: the whole loop, within \<open>k\<close> passes.
\<close>

fun joints_plan :: "rotation \<Rightarrow> element \<Rightarrow> vec \<Rightarrow> nat list \<Rightarrow> error + plan \<times> vec" where
  "joints_plan rot tree s [] = Inr (p_none, s)"
| "joints_plan rot tree s (j # js) =
     err_bind (case rpy_of tree j of None \<Rightarrow> Inr s | Some a \<Rightarrow> rotate_scale rot s a) (\<lambda>s'.
     err_bind (joints_plan rot tree s' js) (\<lambda>(L, sf).
       Inr (p_then (p_then (at_child j (p_tag ''origin'' s)) (p_tag ''axis'' s')) L, sf)))"

definition step_plan ::
  "rotation \<Rightarrow> element \<Rightarrow> vec \<Rightarrow> attr \<Rightarrow> error + plan \<times> vec \<times> attr option" where
  "step_plan rot tree s n =
     err_bind (select ''link'' (has_name n) (children tree) 0) (\<lambda>links.
       (case links of
          [] \<Rightarrow> Inl IndexError
        | l # ls \<Rightarrow>
            err_bind (select ''joint'' (has_parent n) (children tree) 0) (\<lambda>js.
              (case js of
                 [] \<Rightarrow> Inr (at_child l (p_link s), s, None)
               | j0 # js' \<Rightarrow>
                   err_bind (joints_plan rot tree s js) (\<lambda>(L, s').
                   err_bind (link_of ''child'' (children tree ! j0)) (\<lambda>c.
                     Inr (p_then (at_child l (p_link s)) L, s', Some c)))))))"

fun run_plan ::
  "nat \<Rightarrow> rotation \<Rightarrow> element \<Rightarrow> vec \<Rightarrow> attr option \<Rightarrow> (error + plan \<times> vec) option" where
  "run_plan k rot tree s None = Some (Inr (p_none, s))"
| "run_plan 0 rot tree s (Some n) = None"
| "run_plan (Suc k) rot tree s (Some n) =
     (case step_plan rot tree s n of
        Inl err \<Rightarrow> Some (Inl err)
      | Inr (L, s', nx) \<Rightarrow>
          map_option (map_sum id (\<lambda>(L', sf). (p_then L L', sf))) (run_plan k rot tree s' nx))"

text \<open>
  \<open>steps rot sts\<close>: the list \<open>sts\<close> holds successive states of the loop of line 271,
  each state but the first being what one pass of the loop makes of the state before it.
  The run has come to its end when the last state has no next link.
\<close>

fun steps :: "rotation \<Rightarrow> loop_state list \<Rightarrow> bool" where
  "steps rot [] = True"
| "steps rot [st] = True"
| "steps rot ((tree, s, nx) # st # sts) =
     ((case nx of None \<Rightarrow> False | Some n \<Rightarrow> loop_body rot tree s n = Inr st)
      \<and> steps rot (st # sts))"

subsection \<open>Rotations that exchange the axes\<close>

text \<open>
  A rotation attribute is axis-aligned for a rotation function when lines 306 to 309
  re-express every finite scale by a permutation of its components, up to their signs, as
  rotations by multiples of a quarter turn about the coordinate axes do. In an aligned
  tree every \<open>rpy\<close> of a joint below the root is axis-aligned.
\<close>

definition axis_aligned :: "rotation \<Rightarrow> attr \<Rightarrow> bool" where
  "axis_aligned rot a =
     (\<exists>i j k. {i, j, k} = {0, 1, 2::nat}
        \<and> (\<forall>x y z. rotate_scale rot [Fin x, Fin y, Fin z] a
                     = Inr [Fin \<bar>[x, y, z] ! i\<bar>, Fin \<bar>[x, y, z] ! j\<bar>, Fin \<bar>[x, y, z] ! k\<bar>]))"

definition aligned :: "rotation \<Rightarrow> element \<Rightarrow> bool" where
  "aligned rot tree =
     list_all (\<lambda>c. tag c \<noteq> ''joint''
                 \<or> (case map_of (attrib c) ''rpy'' of None \<Rightarrow> True | Some a \<Rightarrow> axis_aligned rot a))
       (children tree)"

section \<open>Example models\<close>

text \<open>
  A link with a name, a joint with its \<open>parent\<close> and \<open>child\<close> elements, and a mesh in
  its usual place \<open>visual/geometry/mesh\<close>.
\<close>

definition link_el :: "string \<Rightarrow> element list \<Rightarrow> element" where
  "link_el n cs = Element ''link'' [(''name'', Text n)] cs"

definition joint_el :: "attrs \<Rightarrow> string \<Rightarrow> string \<Rightarrow> element list \<Rightarrow> element" where
  "joint_el a p c cs =
     Element ''joint'' a
       (Element ''parent'' [(''link'', Text p)] [] # Element ''child'' [(''link'', Text c)] [] # cs)"

definition mesh_el :: "attrs \<Rightarrow> element" where
  "mesh_el a = Element ''visual'' [] [Element ''geometry'' [] [Element ''mesh'' a []]]"

text \<open>
  The content of \<open>misc/bbox.json\<close> for a stored bounding box, and the attributes of a
  scene element that asks for a bounding box.
\<close>

definition bbox_of :: "vec \<Rightarrow> (string \<times> vec) list" where
  "bbox_of v = [(''max'', v), (''min'', [Fin 0, Fin 0, Fin 0])]"

definition unit_bbox :: "(string \<times> vec) list" where
  "unit_bbox = [(''max'', [Fin 1, Fin 1, Fin 1]), (''min'', [Fin 0, Fin 0, Fin 0])]"

definition flat_bbox :: "(string \<times> vec) list" where
  "flat_bbox = [(''max'', [Fin 0, Fin 1, Fin 1]), (''min'', [Fin 0, Fin 0, Fin 0])]"

definition scene_element :: "vec \<Rightarrow> attrs" where
  "scene_element v = [(''category'', Text ''chair''), (''model'', Text ''chair_1''),
                     (''bounding_box'', Nums v)]"

text \<open>
  \<open>chair_tree\<close>: one link with one mesh. \<open>door_tree\<close>: two links and a joint with an
  axis. \<open>loose_tree\<close>: the only joint does not leave the base link. \<open>fork_tree\<close>:
  three joints leave the base link, the second is rotated by a quarter
  turn about z. \<open>cabinet_tree\<close>: meshes, origins and an axis, with the attributes of the
  joint left open. \<open>arm_tree\<close>: a joint rotated about z by the angle whose cosine is 3/5.
\<close>

definition chair_tree :: "attrs \<Rightarrow> element" where
  "chair_tree a = Element ''robot'' [(''name'', Text ''chair'')] [link_el ''base_link'' [mesh_el a]]"

definition door_tree :: "vec \<Rightarrow> element" where
  "door_tree ax = Element ''robot'' [(''name'', Text ''cabinet'')]
     [link_el ''base_link'' [], link_el ''door'' [],
      joint_el [(''name'', Text ''hinge'')] ''base_link'' ''door''
        [Element ''axis'' [(''xyz'', Nums ax)] []]]"


definition fork_tree :: "vec \<Rightarrow> vec \<Rightarrow> vec \<Rightarrow> element" where
  "fork_tree oa ob oc = Element ''robot'' [(''name'', Text ''fork'')]
     [link_el ''base_link'' [], link_el ''left'' [], link_el ''right'' [], link_el ''back'' [],
      joint_el [(''name'', Text ''to_left'')] ''base_link'' ''left''
        [Element ''origin'' [(''xyz'', Nums oa)] [],
         Element ''axis'' [(''xyz'', Nums [Fin 1, Fin 0, Fin 0])] []],
      joint_el [(''name'', Text ''to_right''), (''rpy'', Nums [Fin 0, Fin 0, Fin (pi / 2)])]
        ''base_link'' ''right'' [Element ''origin'' [(''xyz'', Nums ob)] []],
      joint_el [(''name'', Text ''to_back'')] ''base_link'' ''back''
        [Element ''origin'' [(''xyz'', Nums oc)] []]]"

definition cabinet_tree :: "attrs \<Rightarrow> vec \<Rightarrow> attrs \<Rightarrow> vec \<Rightarrow> vec \<Rightarrow> vec \<Rightarrow> element" where
  "cabinet_tree ja o1 m1 m2 o2 ax = Element ''robot'' [(''name'', Text ''cabinet'')]
     [link_el ''base_link''
        [Element ''visual'' []
           [Element ''origin'' [(''xyz'', Nums o1)] [],
            Element ''geometry'' [] [Element ''mesh'' m1 []]]],
      link_el ''door'' [mesh_el [(''filename'', Text ''door.obj''), (''scale'', Nums m2)]],
      joint_el ja ''base_link'' ''door''
        [Element ''origin'' [(''xyz'', Nums o2)] [],
         Element ''axis'' [(''xyz'', Nums ax)] []]]"

definition hinge :: attrs where
  "hinge = [(''name'', Text ''hinge''), (''type'', Text ''revolute'')]"

definition turned_hinge :: attrs where
  "turned_hinge = [(''name'', Text ''hinge''), (''type'', Text ''revolute''),
                  (''rpy'', Nums [Fin 0, Fin 0, Fin (pi / 2)])]"

definition arm_tree :: "vec \<Rightarrow> element" where
  "arm_tree v = Element ''robot'' [(''name'', Text ''arm'')]
     [link_el ''base_link'' [],
      link_el ''arm'' [Element ''origin'' [(''xyz'', Nums v)] []],
      joint_el [(''name'', Text ''elbow''), (''rpy'', Nums [Fin 0, Fin 0, Fin (arccos (3/5))])]
        ''base_link'' ''arm'' []]"

section \<open>Loading and pose access\<close>

lemma box0_load:
  "load BoxShape_load box0 engine0 =
     Inr (Some 0, box0\<lparr>body_id := Some 0, loaded := True\<rparr>,
          \<lparr>pose_of = [0 \<mapsto> ([Fin 1, Fin 2, Fin 3], [Fin 0, Fin 0, Fin 0, Fin 1])],
           shapes = 1, visual_shapes = 1, bodies = 1\<rparr>)"
  by (simp add: load_def box0_def BoxShape_init_def BoxShape_load_def engine0_def
      createCollisionShape_def createVisualShape_def createMultiBody_def
      resetBasePositionAndOrientation_def numeral_2_eq_2)

lemma consistent_init: "consistent Object_init"
  by (simp add: consistent_def Object_init_def)

lemma consistent_call: "consistent (fst st) \<Longrightarrow> consistent (fst (call L m st))"
  by (cases st; cases m)
     (auto simp: consistent_def load_def split: sum.splits prod.splits if_splits)

text \<open>
  C4. A second \<open>load\<close> after a successful first one returns the handle of the first call
  and the engine as it was handed in, whatever \<open>_load\<close> would do: no creation call is
  made. No method of \<open>Object\<close> takes a loaded object back to unloaded.
\<close>

theorem load_twice_same_handle:
  "(load L self eng = Inr (h, self1, eng1) \<longrightarrow>
      loaded self1 \<and> load L2 self1 eng2 = Inr (h, self1, eng2) \<and>
      creation_calls (snd (call L2 Load (self1, eng2))) = creation_calls eng2)
   \<and> (loaded (fst st) \<longrightarrow> loaded (fst (call L2 m st)))"
proof (intro conjI impI)
  assume first: "load L self eng = Inr (h, self1, eng1)"
  then show l: "loaded self1"
    by (auto simp: load_def split: if_splits sum.splits)
  from first have "h = body_id self1"
    by (auto simp: load_def split: if_splits sum.splits)
  with l show "load L2 self1 eng2 = Inr (h, self1, eng2)"
    by (simp add: load_def)
  from l show "creation_calls (snd (call L2 Load (self1, eng2))) = creation_calls eng2"
    by (simp add: load_def)
next
  assume "loaded (fst st)"
  then show "loaded (fst (call L2 m st))"
    by (cases st; cases m) (auto simp: load_def)
qed

theorem load_twice_same_handle_witness:
  "load BoxShape_load box0 engine0 = Inr (Some 0, box1, engine1)
   \<and> \<not> loaded box0 \<and> loaded box1
   \<and> load BoxShape_load box1 engine1 = Inr (Some 0, box1, engine1)
   \<and> creation_calls (snd (call BoxShape_load Load (box1, engine1))) = creation_calls engine1
   \<and> loaded (fst (call BoxShape_load (Set_position [Fin 0, Fin 0, Fin 0]) (box1, engine1)))"
  using load_twice_same_handle [of BoxShape_load box0 engine0 "Some 0" box1 engine1
      BoxShape_load engine1 "(box1, engine1)" "Set_position [Fin 0, Fin 0, Fin 0]"]
    box0_load
  by (simp add: box1_def engine1_def box0_def BoxShape_init_def)

text \<open>
  C5 as the specification states it: a pose accessor on an unloaded object fails with
  \<open>NotLoadedError\<close>. The code has no such check; the freshly constructed object hands its
  absent handle to the engine, and the failure is the engine's.
\<close>

theorem unloaded_accessor_counterexample:
  "\<not> loaded Object_init \<and> get_position Object_init engine0 = Inl EngineError
   \<and> get_position Object_init engine0 \<noteq> Inl NotLoadedError"
  by (simp add: Object_init_def get_position_def getBasePositionAndOrientation_def)

text \<open>
  C5, amended. On an unloaded object none of the five pose methods checks \<open>loaded\<close>: each
  passes the absent body handle to the engine, and the call fails with the error the
  engine raises for it.
\<close>

theorem unloaded_accessors_engine_error:
  assumes "consistent self" and "\<not> loaded self"
  shows "get_position self eng = Inl EngineError
       \<and> get_orientation self eng = Inl EngineError
       \<and> set_position self pos eng = Inl EngineError
       \<and> set_orientation self orn eng = Inl EngineError
       \<and> set_position_orientation self pos orn eng = Inl EngineError"
proof -
  from assms have "body_id self = None"
    by (simp add: consistent_def)
  then show ?thesis
    by (simp add: get_position_def get_orientation_def set_position_def set_orientation_def
        set_position_orientation_def getBasePositionAndOrientation_def
        resetBasePositionAndOrientation_def)
qed

theorem unloaded_accessors_engine_error_witness:
  "consistent box0 \<and> \<not> loaded box0
   \<and> get_position box0 engine0 = Inl EngineError
   \<and> get_orientation box0 engine0 = Inl EngineError
   \<and> set_position box0 [Fin 1, Fin 1, Fin 1] engine0 = Inl EngineError
   \<and> set_orientation box0 [Fin 0, Fin 0, Fin 0, Fin 1] engine0 = Inl EngineError
   \<and> set_position_orientation box0 [Fin 1, Fin 1, Fin 1] [Fin 0, Fin 0, Fin 0, Fin 1] engine0
       = Inl EngineError"
proof -
  have c: "consistent box0" and u: "\<not> loaded box0"
    by (simp_all add: consistent_def box0_def BoxShape_init_def)
  from unloaded_accessors_engine_error [OF c u] c u show ?thesis
    by blast
qed

text \<open>
  C10. On a loaded object whose body the engine knows, \<open>set_position\<close> succeeds and
  afterwards the position is the new one and the orientation is the one read before the
  call; \<open>set_orientation\<close> is symmetric. The pose of every other body is untouched.
\<close>

theorem set_position_keeps_orientation:
  assumes "loaded self"
    and "get_position self eng = Inr p0"
    and "get_orientation self eng = Inr o0"
  shows "(case set_position self pos eng of
            Inl e \<Rightarrow> False
          | Inr eng1 \<Rightarrow> get_position self eng1 = Inr pos \<and> get_orientation self eng1 = Inr o0
              \<and> (\<forall>h. Some h \<noteq> body_id self \<longrightarrow> pose_of eng1 h = pose_of eng h))
       \<and> (case set_orientation self orn eng of
            Inl e \<Rightarrow> False
          | Inr eng2 \<Rightarrow> get_position self eng2 = Inr p0 \<and> get_orientation self eng2 = Inr orn
              \<and> (\<forall>h. Some h \<noteq> body_id self \<longrightarrow> pose_of eng2 h = pose_of eng h))"
proof -
  from assms(2) obtain h where h: "body_id self = Some h"
    by (cases "body_id self")
       (auto simp: get_position_def getBasePositionAndOrientation_def)
  from assms(2,3) h have p: "pose_of eng h = Some (p0, o0)"
    by (auto simp: get_position_def get_orientation_def getBasePositionAndOrientation_def
        split: option.splits)
  from h p show ?thesis
    by (simp add: set_position_def set_orientation_def get_position_def get_orientation_def
        getBasePositionAndOrientation_def resetBasePositionAndOrientation_def)
qed

theorem set_position_keeps_orientation_witness:
  "loaded box1
   \<and> get_position box1 engine1 = Inr [Fin 1, Fin 2, Fin 3]
   \<and> get_orientation box1 engine1 = Inr [Fin 0, Fin 0, Fin 0, Fin 1]
   \<and> (case set_position box1 [Fin 5, Fin 6, Fin 7] engine1 of
            Inl e \<Rightarrow> False
          | Inr eng1 \<Rightarrow> get_position box1 eng1 = Inr [Fin 5, Fin 6, Fin 7]
              \<and> get_orientation box1 eng1 = Inr [Fin 0, Fin 0, Fin 0, Fin 1])
   \<and> (case set_orientation box1 [Fin 1, Fin 0, Fin 0, Fin 0] engine1 of
            Inl e \<Rightarrow> False
          | Inr eng2 \<Rightarrow> get_position box1 eng2 = Inr [Fin 1, Fin 2, Fin 3]
              \<and> get_orientation box1 eng2 = Inr [Fin 1, Fin 0, Fin 0, Fin 0])"
proof -
  have l: "loaded box1"
    and p: "get_position box1 engine1 = Inr [Fin 1, Fin 2, Fin 3]"
    and q: "get_orientation box1 engine1 = Inr [Fin 0, Fin 0, Fin 0, Fin 1]"
    by (simp_all add: box1_def engine1_def get_position_def get_orientation_def
        getBasePositionAndOrientation_def)
  from set_position_keeps_orientation [OF l p q, of "[Fin 5, Fin 6, Fin 7]"
      "[Fin 1, Fin 0, Fin 0, Fin 0]"] l p q
  show ?thesis
    by (auto split: sum.splits)
qed

section \<open>Lemmas about the traversal\<close>

subsection \<open>The traversal keeps the shape of the tree\<close>

lemma agree_off_iff:
  "agree_off T e e' \<longleftrightarrow>
     tag e = tag e' \<and> (tag e \<in> set T \<or> attrib e = attrib e')
     \<and> list_all2 (agree_off T) (children e) (children e')"
  by (cases e; cases e') simp

lemma agree_off_refl: "agree_off T e e"
  by (induction e) (auto simp: list_all2_same)

lemma agree_off_trans: "agree_off T e1 e2 \<Longrightarrow> agree_off T e2 e3 \<Longrightarrow> agree_off T e1 e3"
proof (induction e1 arbitrary: e2 e3)
  case (Element tg a cs)
  obtain tg2 a2 cs2 where e2: "e2 = Element tg2 a2 cs2" by (cases e2)
  obtain tg3 a3 cs3 where e3: "e3 = Element tg3 a3 cs3" by (cases e3)
  from Element.prems e2 e3 have l12: "list_all2 (agree_off T) cs cs2"
    and l23: "list_all2 (agree_off T) cs2 cs3" by auto
  have "list_all2 (agree_off T) cs cs3"
    unfolding list_all2_conv_all_nth
  proof (intro conjI allI impI)
    show "length cs = length cs3"
      using l12 l23 by (simp add: list_all2_lengthD)
  next
    fix i assume i: "i < length cs"
    then have "cs ! i \<in> set cs" by simp
    moreover have "agree_off T (cs ! i) (cs2 ! i)"
      using l12 i by (simp add: list_all2_nthD)
    moreover have "agree_off T (cs2 ! i) (cs3 ! i)"
      using l12 l23 i by (simp add: list_all2_nthD2 list_all2_lengthD list_all2_nthD)
    ultimately show "agree_off T (cs ! i) (cs3 ! i)"
      by (rule Element.IH)
  qed
  with Element.prems e2 e3 show ?case by auto
qed

lemma agree_off_mono: "set T \<subseteq> set T' \<Longrightarrow> agree_off T e e' \<Longrightarrow> agree_off T' e e'"
proof (induction e arbitrary: e')
  case (Element tg a cs)
  obtain tg2 a2 cs2 where e2: "e' = Element tg2 a2 cs2" by (cases e')
  from Element.prems e2 have l: "list_all2 (agree_off T) cs cs2" by auto
  have "list_all2 (agree_off T') cs cs2"
    using l Element.IH Element.prems(1)
    by (auto simp: list_all2_conv_all_nth)
  with Element.prems e2 show ?case by auto
qed

lemma iter_update_agree:
  "iter_update t f e = Inr e' \<Longrightarrow> agree_off [t] e e'"
  "iter_update_list t f es = Inr es' \<Longrightarrow> list_all2 (agree_off [t]) es es'"
  by (induction t f e and t f es arbitrary: e' and es' rule: iter_update_iter_update_list.induct)
     (auto split: sum.splits if_splits)



lemma set_child_agree:
  assumes "agree_off T (children tree ! l) c"
  shows "agree_off T tree (set_child tree l c)"
proof -
  have "list_all2 (agree_off T) ((children tree)[l := children tree ! l]) ((children tree)[l := c])"
    by (rule list_all2_update_cong) (simp_all add: list_all2_same agree_off_refl assms)
  then show ?thesis
    by (subst agree_off_iff) (simp add: set_child_def)
qed

lemma agree_offD:
  assumes "agree_off T e e'"
  shows "tag e' = tag e"
    and "tag e \<notin> set T \<Longrightarrow> attrib e' = attrib e"
    and "list_all2 (agree_off T) (children e) (children e')"
    and "length (children e') = length (children e)"
  using assms by (auto simp: agree_off_iff[of T e e'] dest: list_all2_lengthD)

lemma agree_off_nth:
  "agree_off T e e' \<Longrightarrow> i < length (children e) \<Longrightarrow>
     agree_off T (children e ! i) (children e' ! i)"
  by (auto dest: agree_offD(3) list_all2_nthD)

lemma find_agree:
  "list_all2 (agree_off T) cs cs' \<Longrightarrow> t \<notin> set T \<Longrightarrow>
     map_option attrib (find (\<lambda>c. tag c = t) cs) = map_option attrib (find (\<lambda>c. tag c = t) cs')"
  by (induction rule: list_all2_induct) (auto dest: agree_offD)

lemma link_of_agree:
  assumes "agree_off T e e'" and "t \<notin> set T"
  shows "link_of t e' = link_of t e"
proof -
  have "map_option attrib (find (\<lambda>c. tag c = t) (children e))
      = map_option attrib (find (\<lambda>c. tag c = t) (children e'))"
    using agree_offD(3)[OF assms(1)] assms(2) by (rule find_agree)
  then show ?thesis
    by (auto simp: link_of_def split: option.splits)
qed

lemma has_parent_agree:
  "agree_off T e e' \<Longrightarrow> ''parent'' \<notin> set T \<Longrightarrow> has_parent n e' = has_parent n e"
  by (simp add: has_parent_def link_of_agree)

lemma has_name_agree:
  "agree_off T e e' \<Longrightarrow> tag e \<notin> set T \<Longrightarrow> has_name n e' = has_name n e"
  by (simp add: has_name_def agree_offD)

lemma select_agree:
  assumes "list_all2 (agree_off T) cs cs'"
    and "\<And>c c'. agree_off T c c' \<Longrightarrow> tag c = t \<Longrightarrow> p c' = p c"
  shows "select t p cs' i = select t p cs i"
  using assms(1)
proof (induction arbitrary: i rule: list_all2_induct)
  case Nil
  show ?case by simp
next
  case (Cons c cs c' cs')
  have "tag c' = tag c" using Cons.hyps(1) by (rule agree_offD)
  moreover have "tag c = t \<Longrightarrow> p c' = p c" using Cons.hyps(1) by (rule assms(2))
  ultimately show ?case by (simp add: Cons.IH split: sum.splits)
qed

lemma select_joints_agree:
  assumes "agree_off T tree tree'" and "''parent'' \<notin> set T"
  shows "select ''joint'' (has_parent n) (children tree') i
       = select ''joint'' (has_parent n) (children tree) i"
  using agree_offD(3)[OF assms(1)]
  by (rule select_agree) (simp add: has_parent_agree assms(2))

lemma select_sound:
  "select t p cs i = Inr js \<Longrightarrow> j \<in> set js \<Longrightarrow>
     i \<le> j \<and> j < i + length cs \<and> tag (cs ! (j - i)) = t"
proof (induction t p cs i arbitrary: js rule: select.induct)
  case (1 t p i)
  then show ?case by simp
next
  case (2 t p c cs i)
  show ?case
  proof (cases "tag c = t")
    case False
    with "2.prems" have "select t p cs (Suc i) = Inr js" by simp
    from "2.IH"(2)[OF False this "2.prems"(2)] show ?thesis
      by (auto simp: nth_Cons')
  next
    case True
    with "2.prems"(1) obtain b js' where b: "p c = Inr b"
      and js': "select t p cs (Suc i) = Inr js'" and js: "js = (if b then i # js' else js')"
      by (auto split: sum.splits)
    show ?thesis
    proof (cases "j \<in> set js'")
      case True
      from "2.IH"(1)[OF \<open>tag c = t\<close> b js' True] show ?thesis
        by (auto simp: nth_Cons')
    next
      case False
      with js "2.prems"(2) have "j = i" by (auto split: if_splits)
      with \<open>tag c = t\<close> show ?thesis by simp
    qed
  qed
qed

lemma select_sound0:
  "select t p cs 0 = Inr js \<Longrightarrow> j \<in> set js \<Longrightarrow> j < length cs \<and> tag (cs ! j) = t"
  using select_sound[of t p cs 0 js j] by simp

lemma joint_step_facts:
  assumes js: "joint_step rot j0 j tree s = Inr (tree', s', nx)"
    and tj: "tag (children tree ! j) = ''joint''"
    and j0: "j0 < length (children tree)"
  shows "agree_off [''origin'', ''axis''] tree tree'"
    and "(case rpy_of tree j of None \<Rightarrow> Inr s | Some a \<Rightarrow> rotate_scale rot s a) = Inr s'"
    and "\<exists>c. link_of ''child'' (children tree ! j0) = Inr c \<and> nx = Some c"
proof -
  from js obtain jn c where
    jn: "iter_update ''origin'' (scale_origin s) (children tree ! j) = Inr jn"
    and s': "(case map_of (attrib jn) ''rpy'' of None \<Rightarrow> Inr s
              | Some a \<Rightarrow> rotate_scale rot s a) = Inr s'"
    and t': "iter_update ''axis'' (scale_axis s') (set_child tree j jn) = Inr tree'"
    and c: "link_of ''child'' (children tree' ! j0) = Inr c"
    and nx: "nx = Some c"
    by (auto simp: joint_step_def err_bind_def split: sum.splits)
  have a1: "agree_off [''origin''] (children tree ! j) jn"
    using jn by (rule iter_update_agree)
  then have "attrib jn = attrib (children tree ! j)"
    by (rule agree_offD(2)) (simp add: tj)
  with s' show "(case rpy_of tree j of None \<Rightarrow> Inr s | Some a \<Rightarrow> rotate_scale rot s a) = Inr s'"
    by (simp add: rpy_of_def)
  have "agree_off [''origin''] tree (set_child tree j jn)"
    using a1 by (rule set_child_agree)
  then have "agree_off [''origin'', ''axis''] tree (set_child tree j jn)"
    by (rule agree_off_mono[rotated]) simp
  moreover have "agree_off [''origin'', ''axis''] (set_child tree j jn) tree'"
    using iter_update_agree(1)[OF t'] by (rule agree_off_mono[rotated]) simp
  ultimately show a: "agree_off [''origin'', ''axis''] tree tree'"
    by (rule agree_off_trans)
  have "agree_off [''origin'', ''axis''] (children tree ! j0) (children tree' ! j0)"
    using a j0 by (rule agree_off_nth)
  then have "link_of ''child'' (children tree' ! j0) = link_of ''child'' (children tree ! j0)"
    by (rule link_of_agree) simp
  with c nx show "\<exists>c. link_of ''child'' (children tree ! j0) = Inr c \<and> nx = Some c"
    by simp
qed

subsection \<open>Trees without rotation\<close>

lemma no_rpy_agree:
  assumes "agree_off T tree tree'" and "''joint'' \<notin> set T" and "no_rpy tree"
  shows "no_rpy tree'"
proof -
  have "list_all2 (agree_off T) (children tree) (children tree')"
    using assms(1) by (rule agree_offD)
  then show ?thesis
    using assms(3) unfolding no_rpy_def
  proof (induction rule: list_all2_induct)
    case Nil
    show ?case by simp
  next
    case (Cons c cs c' cs')
    from agree_offD(1,2)[OF Cons.hyps(1)] assms(2) Cons.prems Cons.IH
    show ?case by auto
  qed
qed

subsection \<open>Sums of squares\<close>

lemma sum_sq_simps:
  "sum_sq [] = Fin 0" "sum_sq (x # xs) = fadd (fmul x x) (sum_sq xs)"
  by (simp_all add: sum_sq_def)

lemma norm_vec_sum_sq: "norm_vec v = fsqrt (sum_sq v)"
  by (simp add: norm_vec_def sum_sq_def)

lemma fadd_Fin: "fadd a b = Fin t \<Longrightarrow> \<exists>x y. a = Fin x \<and> b = Fin y \<and> t = x + y"
  by (cases a; cases b) auto

lemma fmul_self_Fin: "fmul x x = Fin t \<Longrightarrow> \<exists>r. x = Fin r \<and> t = r * r"
  by (cases x) auto

lemma sum_sq_Fin: "sum_sq v = Fin t \<Longrightarrow> \<exists>rs. v = map Fin rs \<and> t = (\<Sum>r\<leftarrow>rs. r * r)"
proof (induction v arbitrary: t)
  case Nil
  then show ?case by (simp add: sum_sq_simps)
next
  case (Cons x xs)
  from Cons.prems obtain a b where a: "fmul x x = Fin a" and b: "sum_sq xs = Fin b"
    and t: "t = a + b"
    by (auto simp: sum_sq_simps dest!: fadd_Fin)
  from fmul_self_Fin[OF a] obtain r where r: "x = Fin r" "a = r * r" by blast
  from Cons.IH[OF b] obtain rs where rs: "xs = map Fin rs" "b = (\<Sum>r\<leftarrow>rs. r * r)" by blast
  show ?case
    by (rule exI[of _ "r # rs"]) (simp add: t r rs)
qed

lemma sum_sq_map_Fin: "sum_sq (map Fin rs) = Fin (\<Sum>r\<leftarrow>rs. r * r)"
  by (induction rs) (simp_all add: sum_sq_simps)

lemma sum_list_sq_nonneg: "0 \<le> (\<Sum>r\<leftarrow>rs. r * r :: real)"
  by (induction rs) simp_all

subsection \<open>Properties of all elements with a tag\<close>

lemma all_tagged_iff:
  "all_tagged t Q e \<longleftrightarrow> (tag e \<noteq> t \<or> Q (attrib e)) \<and> list_all (all_tagged t Q) (children e)"
  by (cases e) simp



subsection \<open>The constructor raises Python exceptions only\<close>

lemma floats_raises: "floats a = Inl e \<Longrightarrow> py_exception e"
  by (cases a rule: floats.cases) auto

lemma broadcast_raises: "broadcast f xs ys = Inl e \<Longrightarrow> py_exception e"
  by (auto simp: broadcast_def split: if_splits)

lemma scale_mesh_raises: "scale_mesh s a = Inl e \<Longrightarrow> py_exception e"
  by (auto simp: scale_mesh_def err_bind_def np_multiply_def
      split: option.splits sum.splits dest: floats_raises broadcast_raises)

lemma scale_origin_raises: "scale_origin s a = Inl e \<Longrightarrow> py_exception e"
  by (auto simp: scale_origin_def err_bind_def np_multiply_def
      split: option.splits sum.splits dest: floats_raises broadcast_raises)

lemma scale_axis_raises: "scale_axis s a = Inl e \<Longrightarrow> py_exception e"
  by (auto simp: scale_axis_def err_bind_def np_multiply_def
      split: option.splits sum.splits dest: floats_raises broadcast_raises)

lemma iter_update_raises:
  "iter_update t f x = Inl e \<Longrightarrow> \<forall>a e. f a = Inl e \<longrightarrow> py_exception e \<Longrightarrow> py_exception e"
  "iter_update_list t f xs = Inl e \<Longrightarrow> \<forall>a e. f a = Inl e \<longrightarrow> py_exception e \<Longrightarrow> py_exception e"
  by (induction t f x and t f xs rule: iter_update_iter_update_list.induct)
     (auto split: sum.splits if_splits)

lemma scale_elements_raises: "scale_elements s x = Inl e \<Longrightarrow> py_exception e"
  by (auto simp: scale_elements_def err_bind_def split: sum.splits
      dest!: iter_update_raises(1) dest: scale_mesh_raises scale_origin_raises)

lemma rescale_link_raises:
  "rescale_link s x = Inl e \<Longrightarrow> py_exception e"
  "rescale_links s xs = Inl e \<Longrightarrow> py_exception e"
  by (induction s x and s xs rule: rescale_link_rescale_links.induct)
     (auto simp: rescale_link.simps split: sum.splits dest: scale_elements_raises)

lemma select_raises:
  "select t p cs i = Inl e \<Longrightarrow> \<forall>c e. p c = Inl e \<longrightarrow> py_exception e \<Longrightarrow> py_exception e"
  by (induction t p cs i rule: select.induct) (auto split: sum.splits if_splits)

lemma has_name_raises: "has_name n c = Inl e \<Longrightarrow> py_exception e"
  by (auto simp: has_name_def split: option.splits)

lemma link_of_raises: "link_of t c = Inl e \<Longrightarrow> py_exception e"
  by (auto simp: link_of_def split: option.splits)

lemma has_parent_raises: "has_parent n c = Inl e \<Longrightarrow> py_exception e"
  by (auto simp: has_parent_def err_bind_def split: sum.splits dest: link_of_raises)

lemma rotate_scale_raises: "rotate_scale rot s a = Inl e \<Longrightarrow> py_exception e"
  by (auto simp: rotate_scale_def err_bind_def split: sum.splits list.splits
      dest: floats_raises)

lemma joint_step_raises: "joint_step rot j0 j tree s = Inl e \<Longrightarrow> py_exception e"
  by (auto simp: joint_step_def err_bind_def split: sum.splits option.splits
      dest!: iter_update_raises(1)
      dest: scale_origin_raises scale_axis_raises rotate_scale_raises link_of_raises)

lemma for_joints_raises: "for_joints rot j0 js st = Inl e \<Longrightarrow> py_exception e"
  by (induction rot j0 js st rule: for_joints.induct)
     (auto simp: err_bind_def split: sum.splits dest: joint_step_raises)

lemma loop_body_raises: "loop_body rot tree s n = Inl e \<Longrightarrow> py_exception e"
  by (auto simp: loop_body_def err_bind_def Let_def split: sum.splits list.splits
      dest!: select_raises
      dest: has_name_raises has_parent_raises rescale_link_raises(1) for_joints_raises
        joint_step_raises)

lemma while_loop_raises: "while_loop k rot tree s start = Some (Inl e) \<Longrightarrow> py_exception e"
  by (induction k rot tree s start rule: while_loop.induct)
     (auto split: sum.splits dest: loop_body_raises)

lemma base_scale_raises: "base_scale bb data = Inl e \<Longrightarrow> py_exception e"
  by (auto simp: base_scale_def err_bind_def np_subtract_def np_divide_def
      split: sum.splits option.splits dest: floats_raises broadcast_raises)

lemma map_sum_Inl: "map_sum id f z = Inl e \<Longrightarrow> z = Inl e"
  by (cases z) simp_all

lemma init_raises:
  "InteractiveObj2_init k rot xml data tree = Some (Inl e) \<Longrightarrow> py_exception e"
  by (auto simp: InteractiveObj2_init_def split: option.splits sum.splits
      dest!: map_sum_Inl dest: base_scale_raises while_loop_raises)

lemma map_sum_Inr: "map_sum id fst z = Inr t \<Longrightarrow> \<exists>s. z = Inr (t, s)"
  by (cases z) auto

lemma sum_list_sq_zero: "(\<Sum>r\<leftarrow>rs. r * r :: real) = 0 \<Longrightarrow> r \<in> set rs \<Longrightarrow> r = 0"
proof (induction rs)
  case Nil
  then show ?case by simp
next
  case (Cons x xs)
  have "0 \<le> x * x" and "0 \<le> (\<Sum>r\<leftarrow>xs. r * r)"
    by (simp_all add: sum_list_sq_nonneg)
  with Cons.prems(1) have "x * x = 0" and "(\<Sum>r\<leftarrow>xs. r * r) = 0"
    by (simp_all add: add_nonneg_eq_0_iff)
  with Cons.IH Cons.prems(2) show ?case by auto
qed

lemma zero_norm_all_zero:
  assumes "norm_vec v = Fin 0"
  shows "v = map (\<lambda>x. Fin 0) v"
proof -
  from assms obtain t where t: "sum_sq v = Fin t" and "0 \<le> t" and "sqrt t = 0"
    by (cases "sum_sq v") (auto simp: norm_vec_sum_sq split: if_splits)
  then have t0: "t = 0" by simp
  from sum_sq_Fin[OF t] obtain rs where rs: "v = map Fin rs" and s: "t = (\<Sum>r\<leftarrow>rs. r * r)"
    by blast
  have "r = 0" if "r \<in> set rs" for r
    using s t0 that by (auto intro: sum_list_sq_zero)
  then show ?thesis
    unfolding rs by (simp add: map_idI)
qed

section \<open>Vectors\<close>

subsection \<open>Vectors of three finite components\<close>

lemma fin3E: "fin3 v \<Longrightarrow> (\<And>a b c. v = [Fin a, Fin b, Fin c] \<Longrightarrow> P) \<Longrightarrow> P"
  by (cases v rule: fin3.cases) auto

lemma nz3E:
  "nz3 v \<Longrightarrow> (\<And>a b c. v = [Fin a, Fin b, Fin c] \<Longrightarrow> a \<noteq> 0 \<Longrightarrow> b \<noteq> 0 \<Longrightarrow> c \<noteq> 0 \<Longrightarrow> P) \<Longrightarrow> P"
  by (cases v rule: nz3.cases) auto

lemma nz3_fin3: "nz3 s \<Longrightarrow> fin3 s"
  by (erule nz3E) simp

lemma nz3_inv3: "nz3 s \<Longrightarrow> nz3 (inv3 s)"
  by (erule nz3E) (simp add: inv3_def)

lemma inv3_inv3: "nz3 s \<Longrightarrow> inv3 (inv3 s) = s"
  by (erule nz3E) (simp add: inv3_def)

lemma mulv_fin3: "fin3 s \<Longrightarrow> fin3 v \<Longrightarrow> fin3 (mulv s v)"
  by (erule fin3E, erule fin3E) (simp add: mulv_def)

lemma mulv_inv3: "nz3 s \<Longrightarrow> fin3 v \<Longrightarrow> mulv (inv3 s) (mulv s v) = v"
  by (erule nz3E, erule fin3E) (simp add: mulv_def inv3_def)

lemma mulv_one: "fin3 s \<Longrightarrow> mulv s [Fin 1, Fin 1, Fin 1] = s"
  by (erule fin3E) (simp add: mulv_def)

lemma norm_vec3: "norm_vec [Fin a, Fin b, Fin c] = Fin (sqrt (a * a + b * b + c * c))"
  by (simp add: norm_vec_def add.assoc)

lemma scaled_axis_pos:
  fixes a b c x y z :: real
  assumes "sqrt (a * a + b * b + c * c) = 1" and "x \<noteq> 0" and "y \<noteq> 0" and "z \<noteq> 0"
  shows "0 < (a * x) * (a * x) + (b * y) * (b * y) + (c * z) * (c * z)"
proof -
  have "a \<noteq> 0 \<or> b \<noteq> 0 \<or> c \<noteq> 0"
    using assms(1) by auto
  then have "a * x \<noteq> 0 \<or> b * y \<noteq> 0 \<or> c * z \<noteq> 0"
    using assms(2,3,4) by auto
  then have "(a * x) * (a * x) + (b * y) * (b * y) + (c * z) * (c * z) \<noteq> 0"
    by (simp add: add_nonneg_eq_0_iff)
  moreover have "0 \<le> (a * x) * (a * x) + (b * y) * (b * y) + (c * z) * (c * z)"
    by simp
  ultimately show ?thesis by linarith
qed

lemma normalise_scaled:
  assumes s: "nz3 s" and v: "fin3 v" and u: "norm_vec v = Fin 1"
  shows "fin3 (normalise (mulv s v))"
    and "norm_vec (normalise (mulv s v)) = Fin 1"
    and "normalise (mulv (inv3 s) (normalise (mulv s v))) = v"
proof -
  from s obtain x y z where s3: "s = [Fin x, Fin y, Fin z]" and nz: "x \<noteq> 0" "y \<noteq> 0" "z \<noteq> 0"
    by (rule nz3E)
  from v obtain a b c where v3: "v = [Fin a, Fin b, Fin c]" by (rule fin3E)
  from u have u': "sqrt (a * a + b * b + c * c) = 1"
    by (simp add: v3 norm_vec3)
  then have sq: "a * a + b * b + c * c = 1"
    by (metis real_sqrt_eq_1_iff)
  define q where "q = (a * x) * (a * x) + (b * y) * (b * y) + (c * z) * (c * z)"
  have qpos: "0 < q" unfolding q_def using u' nz by (rule scaled_axis_pos)
  define n where "n = sqrt q"
  have npos: "0 < n" unfolding n_def using qpos by simp
  have nn: "n * n = q" unfolding n_def using qpos by simp
  have w: "mulv s v = [Fin (a * x), Fin (b * y), Fin (c * z)]"
    by (simp add: mulv_def s3 v3)
  have nw: "norm_vec [Fin (a * x), Fin (b * y), Fin (c * z)] = Fin n"
    by (simp add: norm_vec3 n_def q_def)
  have "normalise (mulv s v) = map (\<lambda>x. fdiv x (norm_vec (mulv s v))) (mulv s v)"
    by (rule normalise_def)
  also have "\<dots> = map (\<lambda>x. fdiv x (Fin n)) [Fin (a * x), Fin (b * y), Fin (c * z)]"
    by (simp only: w nw)
  finally have nm: "normalise (mulv s v) = [Fin (a * x / n), Fin (b * y / n), Fin (c * z / n)]"
    using npos by simp
  show "fin3 (normalise (mulv s v))" by (simp add: nm)
  have "(a * x / n) * (a * x / n) + (b * y / n) * (b * y / n) + (c * z / n) * (c * z / n)
      = q / (n * n)"
    by (simp add: q_def add_divide_distrib)
  also have "\<dots> = 1" using qpos by (simp add: nn)
  finally show "norm_vec (normalise (mulv s v)) = Fin 1"
    by (simp add: nm norm_vec3)
  have bk: "mulv (inv3 s) (normalise (mulv s v)) = [Fin (a / n), Fin (b / n), Fin (c / n)]"
    unfolding nm using nz by (simp add: mulv_def inv3_def s3)
  have "(a / n) * (a / n) + (b / n) * (b / n) + (c / n) * (c / n) = (a * a + b * b + c * c) / (n * n)"
    by (simp add: add_divide_distrib)
  also have "\<dots> = 1 / (n * n)" by (simp only: sq)
  finally have "sqrt ((a / n) * (a / n) + (b / n) * (b / n) + (c / n) * (c / n)) = 1 / n"
    using npos by (simp add: real_sqrt_divide)
  then have nb: "norm_vec [Fin (a / n), Fin (b / n), Fin (c / n)] = Fin (1 / n)"
    by (simp add: norm_vec3)
  have "normalise (mulv (inv3 s) (normalise (mulv s v)))
      = map (\<lambda>x. fdiv x (norm_vec (mulv (inv3 s) (normalise (mulv s v)))))
          (mulv (inv3 s) (normalise (mulv s v)))"
    by (rule normalise_def)
  also have "\<dots> = map (\<lambda>x. fdiv x (Fin (1 / n))) [Fin (a / n), Fin (b / n), Fin (c / n)]"
    by (simp only: bk nb)
  also have "\<dots> = v"
    using npos by (simp add: v3)
  finally show "normalise (mulv (inv3 s) (normalise (mulv s v))) = v" .
qed

section \<open>The claims about the traversal\<close>

lemmas tree_eval = base_scale_def err_bind_def np_subtract_def np_divide_def np_multiply_def
  broadcast_def fsub_def loop_body_def has_name_def has_parent_def link_of_def set_child_def
  rescale_link.simps scale_elements_def scale_mesh_def scale_origin_def scale_axis_def
  joint_step_def norm_vec_def np_absolute_def rotate_scale_def InteractiveObj2_init_def
  link_el_def joint_el_def mesh_el_def scene_element_def inf_times_def

text \<open>
  C1. The scenario of the specification: stored bounding box (1,1,1), requested bounding
  box (2,1,0.5), one mesh without a scale below the root link, in the usual place
  \<open>link/visual/geometry/mesh\<close>. The base scale is (2,1,0.5). The mesh lies in the subtree
  of the link, of \<open>visual\<close>, of \<open>geometry\<close> and of itself, so the loop of line 274 reaches
  it four times: the first visit sets the scale, the next three multiply it, and it ends
  as (16,1,1/16), not (2,1,0.5).
\<close>

theorem root_mesh_scaled_once_per_ancestor:
  "base_scale (Nums [Fin 2, Fin 1, Fin (1/2)]) unit_bbox = Inr [Fin 2, Fin 1, Fin (1/2)]
   \<and> InteractiveObj2_init 1 rotate_vector_3d (scene_element [Fin 2, Fin 1, Fin (1/2)]) unit_bbox
        (chair_tree [(''filename'', Text ''chair.obj'')])
      = Some (Inr (chair_tree [(''filename'', Text ''chair.obj''),
                              (''scale'', Nums [Fin 16, Fin 1, Fin (1/16)])]))"
  by (simp add: tree_eval chair_tree_def unit_bbox_def)

text \<open>
  C2. With several joints below one link, the claim has all of them processed under the
  current scale, and only the rotation of the first re-express the scale that is handed
  on. In \<open>fork_tree\<close> the joints at positions 4, 5 and 6 leave \<open>base_link\<close>; the first
  declares no rotation, the second a yaw of a quarter turn. Line 308 assigns the rotated
  scale to the variable \<open>scale\<close> inside the loop over the joints, so the rotation of the
  second joint changes the scale for the joints after it and for the next link. With the
  base scale (2,1,1) the origins of the first two joints are multiplied by (2,1,1), the
  origin of the third by (1,2,1), and (1,2,1) is the scale handed on to the link \<open>left\<close>,
  the child of the first joint. By the claim, and by the comment of line 298 (the
  locations of the joint frames are scaled in the direction of the parent), every origin
  would be multiplied by (2,1,1), and (2,1,1) would be handed on.
\<close>

theorem sibling_rotation_overwrites_scale:
  "select ''joint'' (has_parent (Text ''base_link''))
      (children (fork_tree [Fin 1, Fin 1, Fin 1] [Fin 1, Fin 1, Fin 1] [Fin 1, Fin 1, Fin 1])) 0
     = Inr [4, 5, 6]
   \<and> loop_body rotate_vector_3d
        (fork_tree [Fin 1, Fin 1, Fin 1] [Fin 1, Fin 1, Fin 1] [Fin 1, Fin 1, Fin 1])
        [Fin 2, Fin 1, Fin 1] (Text ''base_link'')
     = Inr (fork_tree [Fin 2, Fin 1, Fin 1] [Fin 2, Fin 1, Fin 1] [Fin 1, Fin 2, Fin 1],
            [Fin 1, Fin 2, Fin 1], Some (Text ''left''))
   \<and> InteractiveObj2_init 2 rotate_vector_3d (scene_element [Fin 2, Fin 1, Fin 1]) unit_bbox
        (fork_tree [Fin 1, Fin 1, Fin 1] [Fin 1, Fin 1, Fin 1] [Fin 1, Fin 1, Fin 1])
     = Some (Inr (fork_tree [Fin 2, Fin 1, Fin 1] [Fin 2, Fin 1, Fin 1] [Fin 1, Fin 2, Fin 1]))"
  by (simp add: tree_eval fork_tree_def unit_bbox_def rotate_vector_3d_def rot_x_def rot_y_def
      rot_z_def numeral_2_eq_2)

text \<open>
  C6 as the specification states it: a zero component of the stored bounding box makes
  the construction fail with \<open>MalformedTreeError\<close>. With the stored box (0,1,1) the division
  gives the scale (inf,1,1), and the constructor returns the tree rescaled with it.
\<close>

theorem zero_bbox_counterexample:
  "np_subtract [Fin 0, Fin 1, Fin 1] [Fin 0, Fin 0, Fin 0] = Inr [Fin 0, Fin 1, Fin 1]
   \<and> InteractiveObj2_init 1 rotate_vector_3d (scene_element [Fin 1, Fin 1, Fin 1]) flat_bbox
        (chair_tree [(''filename'', Text ''chair.obj'')])
      = Some (Inr (chair_tree [(''filename'', Text ''chair.obj''),
                              (''scale'', Nums [PInf, Fin 1, Fin 1])]))
   \<and> InteractiveObj2_init 1 rotate_vector_3d (scene_element [Fin 1, Fin 1, Fin 1]) flat_bbox
        (chair_tree [(''filename'', Text ''chair.obj'')])
      \<noteq> Some (Inl MalformedTreeError)"
  by (simp add: tree_eval chair_tree_def flat_bbox_def)

text \<open>
  C6, amended. Nothing is validated before the division. Where the stored bounding box
  has a zero component, the base scale has a component that is not finite, the traversal
  runs with that scale, and whatever the constructor does it does not fail with
  \<open>MalformedTreeError\<close>. The constructor has no access to the engine.
\<close>

theorem zero_bbox_not_validated:
  assumes "map_of xml_element ''bounding_box'' = Some (Nums target)"
    and "map_of data ''max'' = Some bbox_max"
    and "map_of data ''min'' = Some bbox_min"
    and "np_subtract bbox_max bbox_min = Inr original_bbox"
    and "length target = length original_bbox"
    and "i < length original_bbox"
    and "original_bbox ! i = Fin 0"
  shows "\<exists>scale. base_scale (Nums target) data = Inr scale
           \<and> \<not> is_finite (scale ! i)
           \<and> InteractiveObj2_init k rot xml_element data object_tree
               = map_option (map_sum id fst)
                   (while_loop k rot object_tree scale (Some (Text ''base_link'')))
           \<and> InteractiveObj2_init k rot xml_element data object_tree
               \<noteq> Some (Inl MalformedTreeError)"
proof -
  from assms(5,6) obtain x xs where t: "target = x # xs"
    by (cases target) auto
  define scale where "scale = map2 fdiv target original_bbox"
  have b: "base_scale (Nums target) data = Inr scale"
    using assms(2,3,4,5) by (simp add: base_scale_def err_bind_def np_divide_def broadcast_def
        scale_def t)
  have "scale ! i = fdiv (target ! i) (Fin 0)"
    using assms(5,6,7) by (simp add: scale_def)
  then have nf: "\<not> is_finite (scale ! i)"
    by (cases "target ! i") simp_all
  have run: "InteractiveObj2_init k rot xml_element data object_tree
      = map_option (map_sum id fst)
          (while_loop k rot object_tree scale (Some (Text ''base_link'')))"
    using assms(1) b by (simp add: InteractiveObj2_init_def)
  have "InteractiveObj2_init k rot xml_element data object_tree \<noteq> Some (Inl MalformedTreeError)"
    using init_raises[of k rot xml_element data object_tree MalformedTreeError] by auto
  with b nf run show ?thesis by blast
qed

theorem zero_bbox_not_validated_witness:
  "map_of (scene_element [Fin 1, Fin 1, Fin 1]) ''bounding_box'' = Some (Nums [Fin 1, Fin 1, Fin 1])
   \<and> np_subtract [Fin 0, Fin 1, Fin 1] [Fin 0, Fin 0, Fin 0] = Inr [Fin 0, Fin 1, Fin 1]
   \<and> (\<exists>scale. base_scale (Nums [Fin 1, Fin 1, Fin 1]) flat_bbox = Inr scale
           \<and> \<not> is_finite (scale ! 0)
           \<and> InteractiveObj2_init 1 rotate_vector_3d (scene_element [Fin 1, Fin 1, Fin 1])
               flat_bbox (chair_tree [(''filename'', Text ''chair.obj'')])
               = map_option (map_sum id fst)
                   (while_loop 1 rotate_vector_3d (chair_tree [(''filename'', Text ''chair.obj'')])
                      scale (Some (Text ''base_link'')))
           \<and> InteractiveObj2_init 1 rotate_vector_3d (scene_element [Fin 1, Fin 1, Fin 1])
               flat_bbox (chair_tree [(''filename'', Text ''chair.obj'')])
               \<noteq> Some (Inl MalformedTreeError))"
proof -
  have 1: "map_of (scene_element [Fin 1, Fin 1, Fin 1]) ''bounding_box''
      = Some (Nums [Fin 1, Fin 1, Fin 1])"
    and 2: "map_of flat_bbox ''max'' = Some [Fin 0, Fin 1, Fin 1]"
    and 3: "map_of flat_bbox ''min'' = Some [Fin 0, Fin 0, Fin 0]"
    and 4: "np_subtract [Fin 0, Fin 1, Fin 1] [Fin 0, Fin 0, Fin 0] = Inr [Fin 0, Fin 1, Fin 1]"
    and 5: "length [Fin 1, Fin 1, Fin 1] = length [Fin 0, Fin 1, Fin 1]"
    and 6: "0 < length [Fin 0, Fin 1, Fin 1]"
    and 7: "[Fin 0, Fin 1, Fin 1] ! 0 = Fin 0"
    by (simp_all add: scene_element_def flat_bbox_def np_subtract_def broadcast_def fsub_def)
  from zero_bbox_not_validated [OF 1 2 3 4 5 6 7, of 1 rotate_vector_3d
      "chair_tree [(''filename'', Text ''chair.obj'')]"] 1 4
  show ?thesis by simp
qed

text \<open>
  C9 as the specification states it: an axis that scaling makes zero raises
  \<open>DegenerateAxisError\<close>. The hinge of \<open>door_tree\<close> has the axis (1,0,0); with the scale
  (0,1,1) the scaled axis is zero, the constructor returns, and the axis it leaves is
  (NaN,NaN,NaN).
\<close>

theorem degenerate_axis_counterexample:
  "InteractiveObj2_init 2 rotate_vector_3d (scene_element [Fin 0, Fin 1, Fin 1]) unit_bbox
     (door_tree [Fin 1, Fin 0, Fin 0])
     = Some (Inr (door_tree [NaN, NaN, NaN]))
   \<and> InteractiveObj2_init 2 rotate_vector_3d (scene_element [Fin 0, Fin 1, Fin 1]) unit_bbox
     (door_tree [Fin 1, Fin 0, Fin 0]) \<noteq> Some (Inl DegenerateAxisError)"
  by (simp add: tree_eval door_tree_def unit_bbox_def numeral_2_eq_2)

text \<open>
  C9, amended. When the scaled axis has magnitude zero, the update of lines 313 to 316
  raises nothing: it divides by the zero norm and writes an axis all of whose components
  are NaN. The constructor never fails with \<open>DegenerateAxisError\<close>.
\<close>

theorem zero_axis_becomes_nan:
  assumes "map_of a ''xyz'' = Some v"
    and "floats v = Inr current_axis_xyz"
    and "np_multiply current_axis_xyz scale = Inr new_axis_xyz"
    and "norm_vec new_axis_xyz = Fin 0"
  shows "scale_axis scale a = Inr (AList.update ''xyz'' (Nums (map (\<lambda>x. NaN) new_axis_xyz)) a)
       \<and> InteractiveObj2_init k rot xml_element data tree \<noteq> Some (Inl DegenerateAxisError)"
proof -
  have "map (\<lambda>x. fdiv x (norm_vec new_axis_xyz)) new_axis_xyz
      = map (\<lambda>x. fdiv x (Fin 0)) (map (\<lambda>x. Fin 0) new_axis_xyz)"
    using zero_norm_all_zero[OF assms(4)] assms(4) by simp
  also have "\<dots> = map (\<lambda>x. NaN) new_axis_xyz"
    by (simp add: o_def)
  finally have nan: "map (\<lambda>x. fdiv x (norm_vec new_axis_xyz)) new_axis_xyz
      = map (\<lambda>x. NaN) new_axis_xyz" .
  have "scale_axis scale a
      = Inr (AList.update ''xyz''
               (Nums (map (\<lambda>x. fdiv x (norm_vec new_axis_xyz)) new_axis_xyz)) a)"
    using assms(1,2,3) by (simp add: scale_axis_def err_bind_def)
  then have "scale_axis scale a
      = Inr (AList.update ''xyz'' (Nums (map (\<lambda>x. NaN) new_axis_xyz)) a)"
    by (simp only: nan)
  moreover have "InteractiveObj2_init k rot xml_element data tree \<noteq> Some (Inl DegenerateAxisError)"
    using init_raises[of k rot xml_element data tree DegenerateAxisError] by auto
  ultimately show ?thesis by simp
qed

theorem zero_axis_becomes_nan_witness:
  "np_multiply [Fin 1, Fin 0, Fin 0] [Fin 0, Fin 1, Fin 1] = Inr [Fin 0, Fin 0, Fin 0]
   \<and> norm_vec [Fin 0, Fin 0, Fin 0] = Fin 0
   \<and> scale_axis [Fin 0, Fin 1, Fin 1] [(''xyz'', Nums [Fin 1, Fin 0, Fin 0])]
       = Inr [(''xyz'', Nums [NaN, NaN, NaN])]
   \<and> InteractiveObj2_init 2 rotate_vector_3d (scene_element [Fin 0, Fin 1, Fin 1]) unit_bbox
        (door_tree [Fin 1, Fin 0, Fin 0]) \<noteq> Some (Inl DegenerateAxisError)"
proof -
  have 1: "map_of [(''xyz'', Nums [Fin 1, Fin 0, Fin 0])] ''xyz'' = Some (Nums [Fin 1, Fin 0, Fin 0])"
    and 2: "floats (Nums [Fin 1, Fin 0, Fin 0]) = Inr [Fin 1, Fin 0, Fin 0]"
    and 3: "np_multiply [Fin 1, Fin 0, Fin 0] [Fin 0, Fin 1, Fin 1] = Inr [Fin 0, Fin 0, Fin 0]"
    and 4: "norm_vec [Fin 0, Fin 0, Fin 0] = Fin 0"
    by (simp_all add: np_multiply_def broadcast_def norm_vec_def)
  from zero_axis_becomes_nan [OF 1 2 3 4, of 2 rotate_vector_3d
      "scene_element [Fin 0, Fin 1, Fin 1]" unit_bbox "door_tree [Fin 1, Fin 0, Fin 0]"] 3 4
  show ?thesis by simp
qed

section \<open>Runs as plans\<close>

subsection \<open>Updating by a plan\<close>

lemma upd_sel [simp]:
  "tag (upd L x) = tag x"
  "attrib (upd L x) = fold (\<lambda>s. applied s (tag x)) (L [] (tag x)) (attrib x)"
  "children (upd L x) = upds L 0 (children x)"
  by (cases x; simp)+

lemma upds_length [simp]: "length (upds L i cs) = length cs"
  by (induction cs arbitrary: i) simp_all

lemma upds_nth: "k < length cs \<Longrightarrow> upds L i cs ! k = upd (\<lambda>p. L ((i + k) # p)) (cs ! k)"
proof (induction cs arbitrary: i k)
  case Nil
  then show ?case by simp
next
  case (Cons c cs)
  show ?case
  proof (cases k)
    case 0
    then show ?thesis by simp
  next
    case (Suc k')
    with Cons.prems have "k' < length cs" by simp
    from Cons.IH[OF this, of "Suc i"] Suc show ?thesis by simp
  qed
qed

lemma upd_none_gen:
  "(\<And>p tg. L p tg = []) \<Longrightarrow> upd L x = x"
  "(\<And>p tg. L p tg = []) \<Longrightarrow> upds L i xs = xs"
  by (induction L x and L i xs rule: upd_upds.induct) simp_all

lemma upd_none: "upd p_none x = x"
  by (rule upd_none_gen) (simp add: p_none_def)

lemma upd_append:
  "upd L2 (upd L1 x) = upd (\<lambda>p tg. L1 p tg @ L2 p tg) x"
  "upds L2 i (upds L1 i xs) = upds (\<lambda>p tg. L1 p tg @ L2 p tg) i xs"
  by (induction L1 x and L1 i xs arbitrary: L2 and L2 rule: upd_upds.induct) simp_all

lemma upd_then: "upd L2 (upd L1 x) = upd (p_then L1 L2) x"
  by (simp add: upd_append p_then_def)

lemma upds_uniform: "upds (\<lambda>p. L0) i cs = map (upd (\<lambda>p. L0)) cs"
  by (induction cs arbitrary: i) simp_all

lemma applied_other: "\<not> numeric tg \<Longrightarrow> applied s tg a = a"
  by (simp add: numeric_def applied_def)

lemma fold_applied_other: "\<not> numeric tg \<Longrightarrow> fold (\<lambda>s. applied s tg) ss a = a"
  by (induction ss) (simp_all add: applied_other)

lemma upd_agree:
  "agree_off [''mesh'', ''origin'', ''axis''] x (upd L x)"
  "list_all2 (agree_off [''mesh'', ''origin'', ''axis'']) xs (upds L i xs)"
proof (induction L x and L i xs rule: upd_upds.induct)
  case (1 L tg a cs)
  have "tg \<in> set [''mesh'', ''origin'', ''axis''] \<or> a = fold (\<lambda>s. applied s tg) (L [] tg) a"
  proof (cases "numeric tg")
    case True
    then show ?thesis by (auto simp: numeric_def)
  next
    case False
    then show ?thesis by (simp add: fold_applied_other)
  qed
  with 1 show ?case by simp
qed simp_all

lemma at_child_hit: "(\<lambda>p. at_child l L (l # p)) = L"
  by (simp add: at_child_def)

lemma at_child_miss: "k \<noteq> l \<Longrightarrow> (\<lambda>p. at_child l L (k # p)) = p_none"
  by (simp add: at_child_def p_none_def)

lemma set_child_upd:
  assumes "l < length (children x)"
  shows "set_child x l (upd L (children x ! l)) = upd (at_child l L) x"
proof -
  have "upds (at_child l L) 0 (children x) = (children x)[l := upd L (children x ! l)]"
  proof (rule nth_equalityI)
    show "length (upds (at_child l L) 0 (children x))
        = length ((children x)[l := upd L (children x ! l)])" by simp
  next
    fix k assume "k < length (upds (at_child l L) 0 (children x))"
    then have k: "k < length (children x)" by simp
    show "upds (at_child l L) 0 (children x) ! k = (children x)[l := upd L (children x ! l)] ! k"
    proof (cases "k = l")
      case True
      with k show ?thesis by (simp add: upds_nth at_child_hit)
    next
      case False
      with k show ?thesis by (simp add: upds_nth at_child_miss upd_none)
    qed
  qed
  moreover have "at_child l L [] (tag x) = []" by (simp add: at_child_def)
  ultimately show ?thesis
    by (cases x) (simp add: set_child_def)
qed

subsection \<open>A plan does not change what the traversal reads\<close>

lemma joint_not_numeric: "\<not> numeric ''joint''"
  by (simp add: numeric_def)

lemma upd_child_attrib:
  "k < length (children x) \<Longrightarrow> \<not> numeric (tag (children x ! k)) \<Longrightarrow>
     attrib (children (upd L x) ! k) = attrib (children x ! k)"
  by (simp add: upds_nth fold_applied_other)

lemma rpy_of_upd:
  "j < length (children T) \<Longrightarrow> tag (children T ! j) = ''joint'' \<Longrightarrow>
     rpy_of (upd L T) j = rpy_of T j"
  unfolding rpy_of_def by (simp only: upd_child_attrib joint_not_numeric not_False_eq_True)

lemma upd_link_of_child:
  assumes "k < length (children x)"
  shows "link_of ''child'' (children (upd L x) ! k) = link_of ''child'' (children x ! k)"
proof -
  have "agree_off [''mesh'', ''origin'', ''axis''] (children x ! k) (children (upd L x) ! k)"
    using upd_agree(1)[of x L] assms by (rule agree_off_nth)
  then show ?thesis by (rule link_of_agree) simp
qed

lemma select_links_upd:
  "select ''link'' (has_name n) (children (upd L T)) i = select ''link'' (has_name n) (children T) i"
  using agree_offD(3)[OF upd_agree(1)[of T L]]
  by (rule select_agree) (simp add: has_name_agree)

lemma select_joints_upd:
  "select ''joint'' (has_parent n) (children (upd L T)) i
     = select ''joint'' (has_parent n) (children T) i"
  using upd_agree(1)[of T L] by (rule select_joints_agree) simp

lemma joints_plan_cong:
  "(\<And>j. j \<in> set js \<Longrightarrow> rpy_of T' j = rpy_of T j) \<Longrightarrow>
     joints_plan rot T' s js = joints_plan rot T s js"
  by (induction js arbitrary: s) simp_all

lemma joints_plan_upd:
  assumes "\<And>j. j \<in> set js \<Longrightarrow> j < length (children T) \<and> tag (children T ! j) = ''joint''"
  shows "joints_plan rot (upd L T) s js = joints_plan rot T s js"
  by (rule joints_plan_cong) (simp add: assms rpy_of_upd)

lemma step_plan_upd: "step_plan rot (upd L T) s n = step_plan rot T s n"
proof (cases "select ''joint'' (has_parent n) (children T) 0")
  case (Inl err)
  show ?thesis
    unfolding step_plan_def select_links_upd select_joints_upd
    by (simp add: Inl err_bind_def split: sum.splits list.splits)
next
  case (Inr js)
  have jp: "joints_plan rot (upd L T) s js = joints_plan rot T s js"
    by (rule joints_plan_upd) (rule select_sound0[OF Inr])
  show ?thesis
  proof (cases js)
    case Nil
    show ?thesis
      unfolding step_plan_def select_links_upd select_joints_upd
      by (simp add: Inr Nil err_bind_def)
  next
    case (Cons j0 js')
    from select_sound0[OF Inr, of j0] Cons have "j0 < length (children T)" by simp
    then have lc: "link_of ''child'' (children (upd L T) ! j0) = link_of ''child'' (children T ! j0)"
      by (rule upd_link_of_child)
    show ?thesis
      unfolding step_plan_def select_links_upd select_joints_upd Inr Cons
      by (simp only: err_bind_def sum.case list.case jp[unfolded Cons] lc)
  qed
qed

lemma run_plan_upd: "run_plan k rot (upd L T) s start = run_plan k rot T s start"
  by (induction k rot T s start rule: run_plan.induct)
     (auto simp: step_plan_upd split: sum.splits)

lemma no_rpy_upd: "no_rpy T \<Longrightarrow> no_rpy (upd L T)"
  using upd_agree(1)[of T L] by (rule no_rpy_agree) simp_all

subsection \<open>A pass that returns has followed its plan\<close>

lemma applied_mesh: "scale_mesh s a = Inr a' \<Longrightarrow> applied s ''mesh'' a = a'"
  by (simp add: applied_def)

lemma applied_origin: "scale_origin s a = Inr a' \<Longrightarrow> applied s ''origin'' a = a'"
  by (simp add: applied_def)

lemma applied_axis: "scale_axis s a = Inr a' \<Longrightarrow> applied s ''axis'' a = a'"
  by (simp add: applied_def)

lemma iter_update_upd:
  "iter_update t f x = Inr x' \<Longrightarrow> \<forall>a a'. f a = Inr a' \<longrightarrow> applied s t a = a' \<Longrightarrow>
     x' = upd (p_tag t s) x"
  "iter_update_list t f xs = Inr xs' \<Longrightarrow> \<forall>a a'. f a = Inr a' \<longrightarrow> applied s t a = a' \<Longrightarrow>
     xs' = map (upd (p_tag t s)) xs"
proof (induction t f x and t f xs arbitrary: x' and xs' rule: iter_update_iter_update_list.induct)
  case (1 t f tg a cs)
  from "1.prems"(1) obtain a' cs' where a': "(if tg = t then f a else Inr a) = Inr a'"
    and cs': "iter_update_list t f cs = Inr cs'" and x': "x' = Element tg a' cs'"
    by (auto split: sum.splits)
  have "cs' = map (upd (p_tag t s)) cs"
    using a' cs' "1.prems"(2) by (rule "1.IH")
  moreover have "upds (p_tag t s) 0 cs = map (upd (p_tag t s)) cs"
    unfolding p_tag_def by (rule upds_uniform)
  moreover have "fold (\<lambda>s. applied s tg) (p_tag t s [] tg) a = a'"
    using a' "1.prems"(2) by (auto simp: p_tag_def split: if_splits)
  ultimately show ?case by (simp add: x')
next
  case (2 t f)
  then show ?case by simp
next
  case (3 t f c cs)
  from "3.prems"(1) obtain c' cs' where c': "iter_update t f c = Inr c'"
    and cs': "iter_update_list t f cs = Inr cs'" and xs': "xs' = c' # cs'"
    by (auto split: sum.splits)
  have "c' = upd (p_tag t s) c" using c' "3.prems"(2) by (rule "3.IH"(1))
  moreover have "cs' = map (upd (p_tag t s)) cs" using c' cs' "3.prems"(2) by (rule "3.IH"(2))
  ultimately show ?case by (simp add: xs')
qed

lemma p_once_then: "p_then (p_tag ''mesh'' s) (p_tag ''origin'' s) = p_once s"
  by (auto simp: p_then_def p_tag_def p_once_def fun_eq_iff)

lemma scale_elements_upd:
  assumes "scale_elements s x = Inr x'"
  shows "x' = upd (p_once s) x"
proof -
  from assms obtain x1 where 1: "iter_update ''mesh'' (scale_mesh s) x = Inr x1"
    and 2: "iter_update ''origin'' (scale_origin s) x1 = Inr x'"
    by (auto simp: scale_elements_def err_bind_def split: sum.splits)
  have "x1 = upd (p_tag ''mesh'' s) x"
    using 1 by (rule iter_update_upd(1)) (simp add: applied_mesh)
  moreover have "x' = upd (p_tag ''origin'' s) x1"
    using 2 by (rule iter_update_upd(1)) (simp add: applied_origin)
  ultimately show ?thesis by (simp add: upd_then p_once_then)
qed

lemma p_link_shift: "(\<lambda>p. p_link s (i # p)) = p_then (p_once s) (p_link s)"
  by (auto simp: p_link_def p_once_def p_then_def fun_eq_iff)

lemma upds_p_link: "upds (p_link s) i cs = map (\<lambda>c. upd (p_link s) (upd (p_once s) c)) cs"
proof (induction cs arbitrary: i)
  case Nil
  show ?case by simp
next
  case (Cons c cs)
  have "upd (\<lambda>p. p_link s (i # p)) c = upd (p_link s) (upd (p_once s) c)"
    by (simp only: p_link_shift upd_then)
  with Cons show ?case by simp
qed

lemma rescale_link_upd:
  "rescale_link s x = Inr x' \<Longrightarrow> x' = upd (p_link s) x"
  "rescale_links s xs = Inr xs' \<Longrightarrow> xs' = map (upd (p_link s)) xs"
proof (induction s x and s xs arbitrary: x' and xs' rule: rescale_link_rescale_links.induct)
  case (1 scale e)
  from "1.prems" obtain e1 cs' where e1: "scale_elements scale e = Inr e1"
    and cs': "rescale_links scale (children e1) = Inr cs'"
    and x': "x' = Element (tag e1) (attrib e1) cs'"
    by (auto simp: rescale_link.simps split: sum.splits)
  have u1: "e1 = upd (p_once scale) e"
    using e1 by (rule scale_elements_upd)
  have c: "cs' = map (upd (p_link scale)) (children e1)"
    using e1 cs' by (rule "1.IH")
  have ch: "upds (p_once scale) 0 (children e) = map (upd (p_once scale)) (children e)"
    unfolding p_once_def by (rule upds_uniform)
  have top: "p_link scale [] (tag e) = p_once scale [] (tag e)"
    by (simp add: p_link_def p_once_def)
  have "upd (p_link scale) e
      = Element (tag e) (fold (\<lambda>s. applied s (tag e)) (p_link scale [] (tag e)) (attrib e))
          (upds (p_link scale) 0 (children e))"
    by (cases e) simp
  also have "\<dots> = Element (tag e1) (attrib e1) (map (upd (p_link scale)) (children e1))"
    by (simp add: u1 top upds_p_link ch)
  finally show ?case by (simp add: x' c)
next
  case (2 scale)
  then show ?case by (simp add: rescale_link.simps)
next
  case (3 scale c cs)
  from "3.prems" obtain c' cs' where c': "rescale_link scale c = Inr c'"
    and cs': "rescale_links scale cs = Inr cs'" and xs': "xs' = c' # cs'"
    by (auto simp: rescale_link.simps split: sum.splits)
  have "c' = upd (p_link scale) c" using c' by (rule "3.IH"(1))
  moreover have "cs' = map (upd (p_link scale)) cs" using c' cs' by (rule "3.IH"(2))
  ultimately show ?case by (simp add: xs')
qed

lemma joint_step_upd:
  assumes js: "joint_step rot j0 j U s = Inr (U', s', nx)"
    and j: "j < length (children U)"
  shows "U' = upd (p_then (at_child j (p_tag ''origin'' s)) (p_tag ''axis'' s')) U"
proof -
  from js obtain jn where jn: "iter_update ''origin'' (scale_origin s) (children U ! j) = Inr jn"
    and t': "iter_update ''axis'' (scale_axis s') (set_child U j jn) = Inr U'"
    by (auto simp: joint_step_def err_bind_def split: sum.splits)
  have "jn = upd (p_tag ''origin'' s) (children U ! j)"
    using jn by (rule iter_update_upd(1)) (simp add: applied_origin)
  then have "set_child U j jn = upd (at_child j (p_tag ''origin'' s)) U"
    using j by (simp add: set_child_upd)
  moreover have "U' = upd (p_tag ''axis'' s') (set_child U j jn)"
    using t' by (rule iter_update_upd(1)) (simp add: applied_axis)
  ultimately show ?thesis by (simp add: upd_then)
qed

lemma for_joints_upd:
  assumes "for_joints rot j0 js (U, s, pn) = Inr (U', s', nx)"
    and "\<And>j. j \<in> set js \<Longrightarrow> j < length (children U) \<and> tag (children U ! j) = ''joint''"
    and "j0 < length (children U)"
  shows "\<exists>L. joints_plan rot U s js = Inr (L, s') \<and> U' = upd L U
           \<and> (js \<noteq> [] \<longrightarrow> (\<exists>c. link_of ''child'' (children U ! j0) = Inr c \<and> nx = Some c))"
  using assms
proof (induction js arbitrary: U s pn)
  case Nil
  then show ?case by (simp add: upd_none)
next
  case (Cons j js)
  note run = Cons.prems(1) and ok = Cons.prems(2) and j0 = Cons.prems(3)
  from run obtain U1 s1 n1 where
    step: "joint_step rot j0 j U s = Inr (U1, s1, n1)"
    and rest: "for_joints rot j0 js (U1, s1, n1) = Inr (U', s', nx)"
    by (auto simp: err_bind_def split: sum.splits)
  have j: "j < length (children U)" and tj: "tag (children U ! j) = ''joint''"
    using ok[of j] by simp_all
  note f = joint_step_facts[OF step tj j0]
  define E where "E = p_then (at_child j (p_tag ''origin'' s)) (p_tag ''axis'' s1)"
  have u1: "U1 = upd E U"
    unfolding E_def using step j by (rule joint_step_upd)
  have ok1: "i < length (children U1) \<and> tag (children U1 ! i) = ''joint''" if "i \<in> set js" for i
    using ok[of i] that by (simp add: u1 upds_nth)
  have j01: "j0 < length (children U1)" using j0 by (simp add: u1)
  from Cons.IH[OF rest ok1 j01] obtain L' where
    L': "joints_plan rot U1 s1 js = Inr (L', s')" and U': "U' = upd L' U1"
    and nx': "js \<noteq> [] \<longrightarrow> (\<exists>c. link_of ''child'' (children U1 ! j0) = Inr c \<and> nx = Some c)"
    by blast
  have "joints_plan rot U1 s1 js = joints_plan rot U s1 js"
    unfolding u1 by (rule joints_plan_upd) (simp add: ok)
  with L' have L'': "joints_plan rot U s1 js = Inr (L', s')" by simp
  have A: "joints_plan rot U s (j # js) = Inr (p_then E L', s')"
    using f(2) L'' by (simp add: err_bind_def E_def)
  have B: "U' = upd (p_then E L') U"
    by (simp add: U' u1 upd_then)
  have C: "\<exists>c. link_of ''child'' (children U ! j0) = Inr c \<and> nx = Some c"
  proof (cases "js = []")
    case True
    with rest f(3) show ?thesis by simp
  next
    case False
    with nx' obtain c
      where c: "link_of ''child'' (children U1 ! j0) = Inr c" and nx: "nx = Some c" by blast
    have "link_of ''child'' (children U1 ! j0) = link_of ''child'' (children U ! j0)"
      unfolding u1 using j0 by (rule upd_link_of_child)
    with c nx show ?thesis by simp
  qed
  from A B C show ?case by blast
qed

lemma loop_body_upd:
  assumes run: "loop_body rot T s n = Inr (T', s', nx)"
  shows "\<exists>L. step_plan rot T s n = Inr (L, s', nx) \<and> T' = upd L T"
proof -
  from run obtain l ls pl js where
    l: "select ''link'' (has_name n) (children T) 0 = Inr (l # ls)"
    and pl: "rescale_link s (children T ! l) = Inr pl"
    and js1: "select ''joint'' (has_parent n) (children (set_child T l pl)) 0 = Inr js"
    and fin: "(case js of [] \<Rightarrow> Inr (set_child T l pl, s, None)
               | j0 # js' \<Rightarrow> for_joints rot j0 (j0 # js') (set_child T l pl, s, Some n))
              = Inr (T', s', nx)"
    by (auto simp: loop_body_def err_bind_def Let_def split: sum.splits list.splits)
  define T1 where "T1 = set_child T l pl"
  from select_sound0[OF l, of l] have l_lt: "l < length (children T)" by simp
  have "pl = upd (p_link s) (children T ! l)"
    using pl by (rule rescale_link_upd)
  then have T1: "T1 = upd (at_child l (p_link s)) T"
    unfolding T1_def using l_lt by (simp add: set_child_upd)
  have js: "select ''joint'' (has_parent n) (children T) 0 = Inr js"
    using js1 unfolding T1_def[symmetric] T1 select_joints_upd .
  have ok: "i < length (children T) \<and> tag (children T ! i) = ''joint''" if "i \<in> set js" for i
    using select_sound0[OF js that] .
  show ?thesis
  proof (cases js)
    case Nil
    with fin have "T' = T1" and "s' = s" and "nx = None" by (simp_all add: T1_def)
    with l js Nil T1 show ?thesis by (simp add: step_plan_def err_bind_def)
  next
    case (Cons j0 js')
    with fin have f: "for_joints rot j0 js (T1, s, Some n) = Inr (T', s', nx)"
      by (simp add: T1_def)
    have ok1: "i < length (children T1) \<and> tag (children T1 ! i) = ''joint''" if "i \<in> set js" for i
      using ok[OF that] by (simp add: T1 upds_nth)
    have j0: "j0 < length (children T)" using ok[of j0] Cons by simp
    then have j01: "j0 < length (children T1)" by (simp add: T1)
    from for_joints_upd[OF f ok1 j01] Cons obtain L' c where
      L': "joints_plan rot T1 s js = Inr (L', s')" and T': "T' = upd L' T1"
      and c: "link_of ''child'' (children T1 ! j0) = Inr c" and nx: "nx = Some c"
      by auto
    have "joints_plan rot T1 s js = joints_plan rot T s js"
      unfolding T1 by (rule joints_plan_upd) (simp add: ok)
    with L' have L'': "joints_plan rot T s js = Inr (L', s')" by simp
    have "link_of ''child'' (children T1 ! j0) = link_of ''child'' (children T ! j0)"
      unfolding T1 using j0 by (rule upd_link_of_child)
    with c have c': "link_of ''child'' (children T ! j0) = Inr c" by simp
    have "step_plan rot T s n = Inr (p_then (at_child l (p_link s)) L', s', nx)"
      using l js Cons L'' c' nx
      by (simp add: step_plan_def err_bind_def del: joints_plan.simps)
    moreover have "T' = upd (p_then (at_child l (p_link s)) L') T"
      by (simp add: T' T1 upd_then)
    ultimately show ?thesis by blast
  qed
qed

lemma while_loop_upd:
  "while_loop k rot T s start = Some (Inr (T', s')) \<Longrightarrow>
     \<exists>L. run_plan k rot T s start = Some (Inr (L, s')) \<and> T' = upd L T"
proof (induction k arbitrary: T s start)
  case 0
  then show ?case by (cases start) (simp_all add: upd_none)
next
  case (Suc k)
  show ?case
  proof (cases start)
    case None
    with Suc.prems show ?thesis by (simp add: upd_none)
  next
    case (Some n)
    with Suc.prems obtain T1 s1 nx where
      b: "loop_body rot T s n = Inr (T1, s1, nx)"
      and r: "while_loop k rot T1 s1 nx = Some (Inr (T', s'))"
      by (auto split: sum.splits)
    from loop_body_upd[OF b] obtain L1 where
      sp: "step_plan rot T s n = Inr (L1, s1, nx)" and T1: "T1 = upd L1 T" by blast
    from Suc.IH[OF r] obtain L2 where
      rp: "run_plan k rot T1 s1 nx = Some (Inr (L2, s'))" and T': "T' = upd L2 T1" by blast
    have "run_plan k rot T s1 nx = Some (Inr (L2, s'))"
      using rp by (simp add: T1 run_plan_upd)
    then have "run_plan (Suc k) rot T s start = Some (Inr (p_then L1 L2, s'))"
      using sp Some by simp
    moreover have "T' = upd (p_then L1 L2) T"
      by (simp add: T' T1 upd_then)
    ultimately show ?thesis by blast
  qed
qed

subsection \<open>The states of a run\<close>

lemma while_loop_steps:
  "while_loop k rot T s start = Some (Inr (T', s')) \<Longrightarrow>
     \<exists>sts. steps rot ((T, s, start) # sts) \<and> last ((T, s, start) # sts) = (T', s', None)"
proof (induction k arbitrary: T s start)
  case 0
  then show ?case by (cases start) (auto intro: exI[of _ "[]"])
next
  case (Suc k)
  show ?case
  proof (cases start)
    case None
    with Suc.prems show ?thesis by (auto intro: exI[of _ "[]"])
  next
    case (Some n)
    with Suc.prems obtain T1 s1 nx where
      b: "loop_body rot T s n = Inr (T1, s1, nx)"
      and r: "while_loop k rot T1 s1 nx = Some (Inr (T', s'))"
      by (auto split: sum.splits)
    from Suc.IH[OF r] obtain sts where
      p: "steps rot ((T1, s1, nx) # sts)" and l: "last ((T1, s1, nx) # sts) = (T', s', None)"
      by blast
    show ?thesis
      by (rule exI[of _ "(T1, s1, nx) # sts"]) (use b p l Some in simp)
  qed
qed

subsection \<open>The scales of a plan\<close>

lemma plan_all_none: "plan_all Q p_none"
  by (simp add: plan_all_def p_none_def)

lemma plan_all_tag: "Q s \<Longrightarrow> plan_all Q (p_tag t s)"
  by (simp add: plan_all_def p_tag_def)

lemma plan_all_link: "Q s \<Longrightarrow> plan_all Q (p_link s)"
  by (auto simp: plan_all_def p_link_def list_all_iff)

lemma plan_all_at_child: "plan_all Q L \<Longrightarrow> plan_all Q (at_child l L)"
  by (auto simp: plan_all_def at_child_def split: list.splits)

lemma plan_all_then: "plan_all Q L1 \<Longrightarrow> plan_all Q L2 \<Longrightarrow> plan_all Q (p_then L1 L2)"
  by (simp add: plan_all_def p_then_def)

lemma joints_plan_no_rpy:
  "(\<And>j. j \<in> set js \<Longrightarrow> rpy_of T j = None) \<Longrightarrow> joints_plan rot T s js = Inr (L, s') \<Longrightarrow>
     s' = s \<and> plan_all (\<lambda>x. x = s) L"
proof (induction js arbitrary: L)
  case Nil
  then show ?case by (simp add: plan_all_none)
next
  case (Cons j js)
  have rj: "rpy_of T j = None" by (rule Cons.prems(1)) simp
  from Cons.prems(2) rj obtain L' where
    L': "joints_plan rot T s js = Inr (L', s')"
    and L: "L = p_then (p_then (at_child j (p_tag ''origin'' s)) (p_tag ''axis'' s)) L'"
    by (auto simp: err_bind_def split: sum.splits)
  have "s' = s \<and> plan_all (\<lambda>x. x = s) L'"
    using _ L' by (rule Cons.IH) (simp add: Cons.prems(1))
  then show ?case
    by (simp add: L plan_all_then plan_all_at_child plan_all_tag)
qed

lemma no_rpy_joint:
  "no_rpy T \<Longrightarrow> j < length (children T) \<Longrightarrow> tag (children T ! j) = ''joint'' \<Longrightarrow>
     rpy_of T j = None"
  by (auto simp: no_rpy_def list_all_length rpy_of_def)

lemma step_plan_no_rpy:
  assumes "no_rpy T" and "step_plan rot T s n = Inr (L, s', nx)"
  shows "s' = s \<and> plan_all (\<lambda>x. x = s) L"
proof -
  from assms(2) obtain l ls js where
    js: "select ''joint'' (has_parent n) (children T) 0 = Inr js"
    and r: "(case js of
               [] \<Rightarrow> Inr (at_child l (p_link s), s, None)
             | j0 # js' \<Rightarrow>
                 err_bind (joints_plan rot T s js) (\<lambda>(L, s').
                 err_bind (link_of ''child'' (children T ! j0)) (\<lambda>c.
                   Inr (p_then (at_child l (p_link s)) L, s', Some c)))) = Inr (L, s', nx)"
    by (auto simp: step_plan_def err_bind_def split: sum.splits list.splits
        simp del: joints_plan.simps)
  show ?thesis
  proof (cases js)
    case Nil
    with r show ?thesis by (auto simp: plan_all_at_child plan_all_link)
  next
    case (Cons j0 js')
    with r obtain L' where L': "joints_plan rot T s js = Inr (L', s')"
      and L: "L = p_then (at_child l (p_link s)) L'"
      by (auto simp: err_bind_def split: sum.splits simp del: joints_plan.simps)
    have "rpy_of T j = None" if "j \<in> set js" for j
      using select_sound0[OF js that] assms(1) by (simp add: no_rpy_joint)
    from joints_plan_no_rpy[OF this L'] show ?thesis
      by (simp add: L plan_all_then plan_all_at_child plan_all_link)
  qed
qed

lemma map_sum_id_Inr: "map_sum id f z = Inr y \<Longrightarrow> \<exists>x. z = Inr x \<and> y = f x"
  by (cases z) auto

lemma run_plan_Suc:
  assumes "run_plan (Suc k) rot T s (Some n) = Some (Inr (L, s'))"
  obtains L1 s1 nx L2 where "step_plan rot T s n = Inr (L1, s1, nx)"
    and "run_plan k rot T s1 nx = Some (Inr (L2, s'))" and "L = p_then L1 L2"
proof -
  from assms obtain L1 s1 nx z where sp: "step_plan rot T s n = Inr (L1, s1, nx)"
    and z: "run_plan k rot T s1 nx = Some z"
    and m: "map_sum id (\<lambda>(L', sf). (p_then L1 L', sf)) z = Inr (L, s')"
    by (auto split: sum.splits)
  from map_sum_id_Inr[OF m] obtain x where x: "z = Inr x"
    and e: "(L, s') = (\<lambda>(L', sf). (p_then L1 L', sf)) x" by blast
  obtain L2 sf where "x = (L2, sf)" by (cases x)
  with e x z have "run_plan k rot T s1 nx = Some (Inr (L2, s'))" and "L = p_then L1 L2"
    by simp_all
  with sp show ?thesis by (rule that)
qed

lemma run_plan_no_rpy:
  "no_rpy T \<Longrightarrow> run_plan k rot T s start = Some (Inr (L, s')) \<Longrightarrow>
     s' = s \<and> plan_all (\<lambda>x. x = s) L"
proof (induction k arbitrary: start L)
  case 0
  then show ?case by (cases start) (simp_all add: plan_all_none)
next
  case (Suc k)
  show ?case
  proof (cases start)
    case None
    with Suc.prems show ?thesis by (simp add: plan_all_none)
  next
    case (Some n)
    from Suc.prems(2)[unfolded Some] obtain L1 s1 nx L2 where
      sp: "step_plan rot T s n = Inr (L1, s1, nx)"
      and rp: "run_plan k rot T s1 nx = Some (Inr (L2, s'))" and L: "L = p_then L1 L2"
      by (rule run_plan_Suc)
    from step_plan_no_rpy[OF Suc.prems(1) sp] have s1: "s1 = s" and a1: "plan_all (\<lambda>x. x = s) L1"
      by simp_all
    from Suc.IH[OF Suc.prems(1) rp[unfolded s1]] a1 show ?thesis
      by (simp add: L plan_all_then)
  qed
qed

lemma steps_no_rpy:
  "no_rpy T \<Longrightarrow> steps rot ((T, s, start) # sts) \<Longrightarrow>
     list_all (\<lambda>(t, sc, nx). sc = s \<and> (\<exists>L. plan_all (\<lambda>x. x = s) L \<and> t = upd L T)) sts"
proof (induction sts arbitrary: T start)
  case Nil
  show ?case by simp
next
  case (Cons st sts)
  obtain T1 s1 nx where st: "st = (T1, s1, nx)" by (cases st)
  from Cons.prems(2) st obtain n where
    b: "loop_body rot T s n = Inr (T1, s1, nx)" and p: "steps rot ((T1, s1, nx) # sts)"
    by (auto split: option.splits)
  from loop_body_upd[OF b] obtain L1 where
    sp: "step_plan rot T s n = Inr (L1, s1, nx)" and T1: "T1 = upd L1 T" by blast
  from step_plan_no_rpy[OF Cons.prems(1) sp] have s1: "s1 = s"
    and p1: "plan_all (\<lambda>x. x = s) L1" by simp_all
  have "no_rpy T1" unfolding T1 using Cons.prems(1) by (rule no_rpy_upd)
  from Cons.IH[OF this p[unfolded s1]]
  have ih: "list_all (\<lambda>(t, sc, nx). sc = s \<and> (\<exists>L. plan_all (\<lambda>x. x = s) L \<and> t = upd L T1)) sts" .
  have "list_all (\<lambda>(t, sc, nx). sc = s \<and> (\<exists>L. plan_all (\<lambda>x. x = s) L \<and> t = upd L T)) sts"
  proof (rule list.pred_mono_strong[OF ih])
    fix z assume "case z of (t, sc, nx) \<Rightarrow>
        sc = s \<and> (\<exists>L. plan_all (\<lambda>x. x = s) L \<and> t = upd L T1)"
    then obtain t sc nx' L where z: "z = (t, sc, nx')" and sc: "sc = s"
      and L: "plan_all (\<lambda>x. x = s) L" and t: "t = upd L T1"
      by (cases z) auto
    have "plan_all (\<lambda>x. x = s) (p_then L1 L)" using p1 L by (rule plan_all_then)
    moreover have "t = upd (p_then L1 L) T" by (simp add: t T1 upd_then)
    ultimately show "case z of (t, sc, nx) \<Rightarrow>
        sc = s \<and> (\<exists>L. plan_all (\<lambda>x. x = s) L \<and> t = upd L T)"
      using z sc by auto
  qed
  moreover have "s1 = s \<and> (\<exists>L. plan_all (\<lambda>x. x = s) L \<and> T1 = upd L T)"
    using s1 p1 T1 by blast
  ultimately show ?case by (simp add: st)
qed

subsection \<open>The axes after a pass over joints\<close>












lemma cabinet_pass_1:
  "loop_body rotate_vector_3d
     (cabinet_tree hinge [Fin 1, Fin 2, Fin 4] [(''filename'', Text ''body.obj'')]
        [Fin 1, Fin 1, Fin 1] [Fin 1, Fin 0, Fin 0] [Fin 1, Fin 0, Fin 0])
     [Fin 2, Fin 1, Fin (1/2)] (Text ''base_link'')
   = Inr (cabinet_tree hinge [Fin 8, Fin 2, Fin (1/2)]
            [(''filename'', Text ''body.obj''), (''scale'', Nums [Fin 16, Fin 1, Fin (1/16)])]
            [Fin 1, Fin 1, Fin 1] [Fin 2, Fin 0, Fin 0] [Fin 1, Fin 0, Fin 0],
          [Fin 2, Fin 1, Fin (1/2)], Some (Text ''door''))"
  by (simp add: tree_eval cabinet_tree_def hinge_def)

lemma cabinet_pass_2:
  "loop_body rotate_vector_3d
     (cabinet_tree hinge [Fin 8, Fin 2, Fin (1/2)]
        [(''filename'', Text ''body.obj''), (''scale'', Nums [Fin 16, Fin 1, Fin (1/16)])]
        [Fin 1, Fin 1, Fin 1] [Fin 2, Fin 0, Fin 0] [Fin 1, Fin 0, Fin 0])
     [Fin 2, Fin 1, Fin (1/2)] (Text ''door'')
   = Inr (cabinet_tree hinge [Fin 8, Fin 2, Fin (1/2)]
            [(''filename'', Text ''body.obj''), (''scale'', Nums [Fin 16, Fin 1, Fin (1/16)])]
            [Fin 16, Fin 1, Fin (1/16)] [Fin 2, Fin 0, Fin 0] [Fin 1, Fin 0, Fin 0],
          [Fin 2, Fin 1, Fin (1/2)], None)"
  by (simp add: tree_eval cabinet_tree_def hinge_def)

lemma fwd_cabinet:
  "InteractiveObj2_init 2 rotate_vector_3d (scene_element [Fin 2, Fin 1, Fin (1/2)])
      (bbox_of [Fin 1, Fin 1, Fin 1])
      (cabinet_tree hinge [Fin 1, Fin 2, Fin 4] [(''filename'', Text ''body.obj'')]
         [Fin 1, Fin 1, Fin 1] [Fin 1, Fin 0, Fin 0] [Fin 1, Fin 0, Fin 0])
    = Some (Inr (cabinet_tree hinge [Fin 8, Fin 2, Fin (1/2)]
         [(''filename'', Text ''body.obj''), (''scale'', Nums [Fin 16, Fin 1, Fin (1/16)])]
         [Fin 16, Fin 1, Fin (1/16)] [Fin 2, Fin 0, Fin 0] [Fin 1, Fin 0, Fin 0]))"
  by (simp add: InteractiveObj2_init_def scene_element_def bbox_of_def base_scale_def
      err_bind_def np_subtract_def np_divide_def broadcast_def fsub_def numeral_2_eq_2
      cabinet_pass_1 cabinet_pass_2)

text \<open>
  C8. Take a tree none of whose joints declares \<open>rpy\<close>, and let \<open>scale\<close> be the quotient
  of the requested and the stored bounding box, as line 267 divides them (component by
  component, for boxes of equal length). The constructor runs the loop of line 271 from
  the base link with \<open>scale\<close>. Whatever number of passes
  the loop makes from there, and whether or not it goes on to return, every state it
  reaches has the scale \<open>scale\<close>, and its tree is the tree given in which the updates of
  lines 276 to 316 have been applied by some plan all of whose updates, at every link,
  joint origin and axis, are made with \<open>scale\<close>. If the constructor returns, its run is
  such a sequence of passes from the tree given to the tree returned, and the tree returned
  is the tree given updated as the plan of the run says, with \<open>scale\<close> throughout.
\<close>

theorem base_scale_applied_without_rpy:
  assumes "no_rpy tree"
    and "map_of xml_element ''bounding_box'' = Some bb"
    and "floats bb = Inr bounding_box"
    and "map_of data ''max'' = Some bbox_max"
    and "map_of data ''min'' = Some bbox_min"
    and "np_subtract bbox_max bbox_min = Inr original_bbox"
    and "np_divide bounding_box original_bbox = Inr scale"
  shows "InteractiveObj2_init k rot xml_element data tree
           = map_option (map_sum id fst)
               (while_loop k rot tree scale (Some (Text ''base_link'')))
       \<and> (length bounding_box = length original_bbox \<longrightarrow>
              scale = map2 fdiv bounding_box original_bbox)
       \<and> (\<forall>sts. steps rot ((tree, scale, Some (Text ''base_link'')) # sts) \<longrightarrow>
              list_all (\<lambda>(t, s, nx). s = scale
                          \<and> (\<exists>L. plan_all (\<lambda>x. x = scale) L \<and> t = upd L tree)) sts)
       \<and> (\<forall>tree'. InteractiveObj2_init k rot xml_element data tree = Some (Inr tree') \<longrightarrow>
              (\<exists>sts. steps rot ((tree, scale, Some (Text ''base_link'')) # sts)
                  \<and> last ((tree, scale, Some (Text ''base_link'')) # sts) = (tree', scale, None))
              \<and> (\<exists>L. run_plan k rot tree scale (Some (Text ''base_link'')) = Some (Inr (L, scale))
                  \<and> plan_all (\<lambda>s. s = scale) L
                  \<and> tree' = upd L tree))"
proof (intro conjI allI impI)
  have b: "base_scale bb data = Inr scale"
    using assms(3-7) by (simp add: base_scale_def err_bind_def)
  show init: "InteractiveObj2_init k rot xml_element data tree
      = map_option (map_sum id fst) (while_loop k rot tree scale (Some (Text ''base_link'')))"
    using assms(2) b by (simp add: InteractiveObj2_init_def)
  show "scale = map2 fdiv bounding_box original_bbox"
    if "length bounding_box = length original_bbox"
    using assms(7) that by (simp add: np_divide_def broadcast_def)
  {
    fix tree' assume "InteractiveObj2_init k rot xml_element data tree = Some (Inr tree')"
    with init have "map_option (map_sum id fst)
        (while_loop k rot tree scale (Some (Text ''base_link''))) = Some (Inr tree')"
      by simp
    then obtain z where "while_loop k rot tree scale (Some (Text ''base_link'')) = Some z"
      and "map_sum id fst z = Inr tree'" by auto
    then obtain s' where
      w: "while_loop k rot tree scale (Some (Text ''base_link'')) = Some (Inr (tree', s'))"
      by (auto dest!: map_sum_Inr)
    from while_loop_upd[OF w] obtain L where
      rp: "run_plan k rot tree scale (Some (Text ''base_link'')) = Some (Inr (L, s'))"
      and t': "tree' = upd L tree" by blast
    from run_plan_no_rpy[OF assms(1) rp] have s': "s' = scale"
      and pa: "plan_all (\<lambda>s. s = scale) L" by simp_all
    from while_loop_steps[OF w] s'
    show "\<exists>sts. steps rot ((tree, scale, Some (Text ''base_link'')) # sts)
        \<and> last ((tree, scale, Some (Text ''base_link'')) # sts) = (tree', scale, None)"
      by simp
    from rp s' pa t'
    show "\<exists>L. run_plan k rot tree scale (Some (Text ''base_link'')) = Some (Inr (L, scale))
        \<and> plan_all (\<lambda>s. s = scale) L \<and> tree' = upd L tree"
      by blast
  }
next
  fix sts assume "steps rot ((tree, scale, Some (Text ''base_link'')) # sts)"
  with assms(1)
  show "list_all (\<lambda>(t, s, nx). s = scale
      \<and> (\<exists>L. plan_all (\<lambda>x. x = scale) L \<and> t = upd L tree)) sts"
    by (rule steps_no_rpy)
qed

theorem base_scale_applied_without_rpy_witness:
  "no_rpy (cabinet_tree hinge [Fin 1, Fin 2, Fin 4] [(''filename'', Text ''body.obj'')]
      [Fin 1, Fin 1, Fin 1] [Fin 1, Fin 0, Fin 0] [Fin 1, Fin 0, Fin 0])
   \<and> np_subtract [Fin 1, Fin 1, Fin 1] [Fin 0, Fin 0, Fin 0] = Inr [Fin 1, Fin 1, Fin 1]
   \<and> np_divide [Fin 2, Fin 1, Fin (1/2)] [Fin 1, Fin 1, Fin 1] = Inr [Fin 2, Fin 1, Fin (1/2)]
   \<and> InteractiveObj2_init 2 rotate_vector_3d (scene_element [Fin 2, Fin 1, Fin (1/2)])
        (bbox_of [Fin 1, Fin 1, Fin 1])
        (cabinet_tree hinge [Fin 1, Fin 2, Fin 4] [(''filename'', Text ''body.obj'')]
           [Fin 1, Fin 1, Fin 1] [Fin 1, Fin 0, Fin 0] [Fin 1, Fin 0, Fin 0])
      = Some (Inr (cabinet_tree hinge [Fin 8, Fin 2, Fin (1/2)]
           [(''filename'', Text ''body.obj''), (''scale'', Nums [Fin 16, Fin 1, Fin (1/16)])]
           [Fin 16, Fin 1, Fin (1/16)] [Fin 2, Fin 0, Fin 0] [Fin 1, Fin 0, Fin 0]))
   \<and> steps rotate_vector_3d
        [(cabinet_tree hinge [Fin 1, Fin 2, Fin 4] [(''filename'', Text ''body.obj'')]
            [Fin 1, Fin 1, Fin 1] [Fin 1, Fin 0, Fin 0] [Fin 1, Fin 0, Fin 0],
          [Fin 2, Fin 1, Fin (1/2)], Some (Text ''base_link'')),
         (cabinet_tree hinge [Fin 8, Fin 2, Fin (1/2)]
            [(''filename'', Text ''body.obj''), (''scale'', Nums [Fin 16, Fin 1, Fin (1/16)])]
            [Fin 1, Fin 1, Fin 1] [Fin 2, Fin 0, Fin 0] [Fin 1, Fin 0, Fin 0],
          [Fin 2, Fin 1, Fin (1/2)], Some (Text ''door'')),
         (cabinet_tree hinge [Fin 8, Fin 2, Fin (1/2)]
            [(''filename'', Text ''body.obj''), (''scale'', Nums [Fin 16, Fin 1, Fin (1/16)])]
            [Fin 16, Fin 1, Fin (1/16)] [Fin 2, Fin 0, Fin 0] [Fin 1, Fin 0, Fin 0],
          [Fin 2, Fin 1, Fin (1/2)], None)]
   \<and> (\<exists>L. plan_all (\<lambda>x. x = [Fin 2, Fin 1, Fin (1/2)]) L
          \<and> cabinet_tree hinge [Fin 8, Fin 2, Fin (1/2)]
              [(''filename'', Text ''body.obj''), (''scale'', Nums [Fin 16, Fin 1, Fin (1/16)])]
              [Fin 1, Fin 1, Fin 1] [Fin 2, Fin 0, Fin 0] [Fin 1, Fin 0, Fin 0]
            = upd L (cabinet_tree hinge [Fin 1, Fin 2, Fin 4] [(''filename'', Text ''body.obj'')]
                 [Fin 1, Fin 1, Fin 1] [Fin 1, Fin 0, Fin 0] [Fin 1, Fin 0, Fin 0]))
   \<and> (\<exists>L. run_plan 2 rotate_vector_3d
              (cabinet_tree hinge [Fin 1, Fin 2, Fin 4] [(''filename'', Text ''body.obj'')]
                 [Fin 1, Fin 1, Fin 1] [Fin 1, Fin 0, Fin 0] [Fin 1, Fin 0, Fin 0])
              [Fin 2, Fin 1, Fin (1/2)] (Some (Text ''base_link''))
            = Some (Inr (L, [Fin 2, Fin 1, Fin (1/2)]))
          \<and> plan_all (\<lambda>s. s = [Fin 2, Fin 1, Fin (1/2)]) L
          \<and> cabinet_tree hinge [Fin 8, Fin 2, Fin (1/2)]
              [(''filename'', Text ''body.obj''), (''scale'', Nums [Fin 16, Fin 1, Fin (1/16)])]
              [Fin 16, Fin 1, Fin (1/16)] [Fin 2, Fin 0, Fin 0] [Fin 1, Fin 0, Fin 0]
            = upd L (cabinet_tree hinge [Fin 1, Fin 2, Fin 4] [(''filename'', Text ''body.obj'')]
                 [Fin 1, Fin 1, Fin 1] [Fin 1, Fin 0, Fin 0] [Fin 1, Fin 0, Fin 0]))"
proof -
  have 1: "no_rpy (cabinet_tree hinge [Fin 1, Fin 2, Fin 4] [(''filename'', Text ''body.obj'')]
      [Fin 1, Fin 1, Fin 1] [Fin 1, Fin 0, Fin 0] [Fin 1, Fin 0, Fin 0])"
    by (simp add: no_rpy_def cabinet_tree_def hinge_def link_el_def joint_el_def)
  have 2: "map_of (scene_element [Fin 2, Fin 1, Fin (1/2)]) ''bounding_box''
      = Some (Nums [Fin 2, Fin 1, Fin (1/2)])"
    and 3: "floats (Nums [Fin 2, Fin 1, Fin (1/2)]) = Inr [Fin 2, Fin 1, Fin (1/2)]"
    and 4: "map_of (bbox_of [Fin 1, Fin 1, Fin 1]) ''max'' = Some [Fin 1, Fin 1, Fin 1]"
    and 5: "map_of (bbox_of [Fin 1, Fin 1, Fin 1]) ''min'' = Some [Fin 0, Fin 0, Fin 0]"
    and 6: "np_subtract [Fin 1, Fin 1, Fin 1] [Fin 0, Fin 0, Fin 0] = Inr [Fin 1, Fin 1, Fin 1]"
    and 7: "np_divide [Fin 2, Fin 1, Fin (1/2)] [Fin 1, Fin 1, Fin 1]
      = Inr [Fin 2, Fin 1, Fin (1/2)]"
    by (simp_all add: scene_element_def bbox_of_def np_subtract_def np_divide_def broadcast_def
        fsub_def)
  have 8: "steps rotate_vector_3d
        [(cabinet_tree hinge [Fin 1, Fin 2, Fin 4] [(''filename'', Text ''body.obj'')]
            [Fin 1, Fin 1, Fin 1] [Fin 1, Fin 0, Fin 0] [Fin 1, Fin 0, Fin 0],
          [Fin 2, Fin 1, Fin (1/2)], Some (Text ''base_link'')),
         (cabinet_tree hinge [Fin 8, Fin 2, Fin (1/2)]
            [(''filename'', Text ''body.obj''), (''scale'', Nums [Fin 16, Fin 1, Fin (1/16)])]
            [Fin 1, Fin 1, Fin 1] [Fin 2, Fin 0, Fin 0] [Fin 1, Fin 0, Fin 0],
          [Fin 2, Fin 1, Fin (1/2)], Some (Text ''door'')),
         (cabinet_tree hinge [Fin 8, Fin 2, Fin (1/2)]
            [(''filename'', Text ''body.obj''), (''scale'', Nums [Fin 16, Fin 1, Fin (1/16)])]
            [Fin 16, Fin 1, Fin (1/16)] [Fin 2, Fin 0, Fin 0] [Fin 1, Fin 0, Fin 0],
          [Fin 2, Fin 1, Fin (1/2)], None)]"
    by (simp add: cabinet_pass_1 cabinet_pass_2)
  note t = base_scale_applied_without_rpy [OF 1 2 3 4 5 6 7, of 2 rotate_vector_3d]
  from t 8 have "\<exists>L. plan_all (\<lambda>x. x = [Fin 2, Fin 1, Fin (1/2)]) L
          \<and> cabinet_tree hinge [Fin 8, Fin 2, Fin (1/2)]
              [(''filename'', Text ''body.obj''), (''scale'', Nums [Fin 16, Fin 1, Fin (1/16)])]
              [Fin 1, Fin 1, Fin 1] [Fin 2, Fin 0, Fin 0] [Fin 1, Fin 0, Fin 0]
            = upd L (cabinet_tree hinge [Fin 1, Fin 2, Fin 4] [(''filename'', Text ''body.obj'')]
                 [Fin 1, Fin 1, Fin 1] [Fin 1, Fin 0, Fin 0] [Fin 1, Fin 0, Fin 0])"
    by fastforce
  with t 1 6 7 8 fwd_cabinet show ?thesis by blast
qed

section \<open>Rescaling forth and back\<close>

subsection \<open>The updates on the values\<close>

lemma mulv_commute: "fin3 s \<Longrightarrow> fin3 t \<Longrightarrow> fin3 v \<Longrightarrow> mulv t (mulv s v) = mulv s (mulv t v)"
  by (erule fin3E, erule fin3E, erule fin3E) (simp add: mulv_def)

lemma normalise_absorb:
  assumes s: "nz3 s" and t: "nz3 t" and v: "fin3 v" and u: "norm_vec v = Fin 1"
  shows "normalise (mulv t (normalise (mulv s v))) = normalise (mulv t (mulv s v))"
proof -
  from s obtain x y z where s3: "s = [Fin x, Fin y, Fin z]" and nz: "x \<noteq> 0" "y \<noteq> 0" "z \<noteq> 0"
    by (rule nz3E)
  from t obtain p q r where t3: "t = [Fin p, Fin q, Fin r]" and tz: "p \<noteq> 0" "q \<noteq> 0" "r \<noteq> 0"
    by (rule nz3E)
  from v obtain a b c where v3: "v = [Fin a, Fin b, Fin c]" by (rule fin3E)
  from u have u': "sqrt (a * a + b * b + c * c) = 1"
    by (simp add: v3 norm_vec3)
  define n where "n = sqrt ((a * x) * (a * x) + (b * y) * (b * y) + (c * z) * (c * z))"
  have npos: "0 < n"
    unfolding n_def using scaled_axis_pos[OF u' nz] by simp
  define m where "m = sqrt ((a * x * p) * (a * x * p) + (b * y * q) * (b * y * q)
      + (c * z * r) * (c * z * r))"
  have xp: "x * p \<noteq> 0" "y * q \<noteq> 0" "z * r \<noteq> 0" using nz tz by simp_all
  have "0 < (a * (x * p)) * (a * (x * p)) + (b * (y * q)) * (b * (y * q))
      + (c * (z * r)) * (c * (z * r))"
    using u' xp by (rule scaled_axis_pos)
  then have mpos: "0 < m"
    unfolding m_def by (simp add: mult.assoc)
  have w: "mulv s v = [Fin (a * x), Fin (b * y), Fin (c * z)]"
    by (simp add: mulv_def s3 v3)
  have nw: "norm_vec [Fin (a * x), Fin (b * y), Fin (c * z)] = Fin n"
    by (simp add: norm_vec3 n_def)
  have "normalise (mulv s v) = map (\<lambda>x. fdiv x (norm_vec (mulv s v))) (mulv s v)"
    by (rule normalise_def)
  also have "\<dots> = map (\<lambda>x. fdiv x (Fin n)) [Fin (a * x), Fin (b * y), Fin (c * z)]"
    by (simp only: w nw)
  finally have nm: "normalise (mulv s v) = [Fin (a * x / n), Fin (b * y / n), Fin (c * z / n)]"
    using npos by simp
  have l: "mulv t (normalise (mulv s v))
      = [Fin (a * x * p / n), Fin (b * y * q / n), Fin (c * z * r / n)]"
    unfolding nm by (simp add: mulv_def t3)
  have "(a * x * p / n) * (a * x * p / n) + (b * y * q / n) * (b * y * q / n)
        + (c * z * r / n) * (c * z * r / n)
      = ((a * x * p) * (a * x * p) + (b * y * q) * (b * y * q) + (c * z * r) * (c * z * r))
        / (n * n)"
    by (simp add: add_divide_distrib)
  then have "sqrt ((a * x * p / n) * (a * x * p / n) + (b * y * q / n) * (b * y * q / n)
        + (c * z * r / n) * (c * z * r / n)) = m / n"
    using npos by (simp add: real_sqrt_divide m_def)
  then have nl: "norm_vec [Fin (a * x * p / n), Fin (b * y * q / n), Fin (c * z * r / n)]
      = Fin (m / n)"
    by (simp add: norm_vec3)
  have "normalise (mulv t (normalise (mulv s v)))
      = map (\<lambda>x. fdiv x (norm_vec (mulv t (normalise (mulv s v))))) (mulv t (normalise (mulv s v)))"
    by (rule normalise_def)
  also have "\<dots> = map (\<lambda>x. fdiv x (Fin (m / n)))
      [Fin (a * x * p / n), Fin (b * y * q / n), Fin (c * z * r / n)]"
    by (simp only: l nl)
  also have "\<dots> = [Fin (a * x * p / m), Fin (b * y * q / m), Fin (c * z * r / m)]"
    using npos mpos by simp
  finally have lhs: "normalise (mulv t (normalise (mulv s v)))
      = [Fin (a * x * p / m), Fin (b * y * q / m), Fin (c * z * r / m)]" .
  have r: "mulv t (mulv s v) = [Fin (a * x * p), Fin (b * y * q), Fin (c * z * r)]"
    by (simp add: mulv_def s3 t3 v3)
  have nr: "norm_vec [Fin (a * x * p), Fin (b * y * q), Fin (c * z * r)] = Fin m"
    by (simp add: norm_vec3 m_def)
  have "normalise (mulv t (mulv s v))
      = map (\<lambda>x. fdiv x (norm_vec (mulv t (mulv s v)))) (mulv t (mulv s v))"
    by (rule normalise_def)
  also have "\<dots> = map (\<lambda>x. fdiv x (Fin m)) [Fin (a * x * p), Fin (b * y * q), Fin (c * z * r)]"
    by (simp only: r nr)
  also have "\<dots> = [Fin (a * x * p / m), Fin (b * y * q / m), Fin (c * z * r / m)]"
    using mpos by simp
  finally show ?thesis using lhs by simp
qed

lemma value_fn_wf:
  "nz3 s \<Longrightarrow> wf_value tg v \<Longrightarrow> wf_value tg (value_fn s tg v)"
  by (auto simp: wf_value_def value_fn_def mulv_fin3 nz3_fin3 normalise_scaled)

lemma value_fn_inv:
  "nz3 s \<Longrightarrow> wf_value tg v \<Longrightarrow> value_fn (inv3 s) tg (value_fn s tg v) = v"
  by (auto simp: wf_value_def value_fn_def mulv_inv3 normalise_scaled)

lemma value_fn_commute:
  assumes "nz3 s" and "nz3 t" and "wf_value tg v"
  shows "value_fn t tg (value_fn s tg v) = value_fn s tg (value_fn t tg v)"
proof (cases "tg = ''axis''")
  case False
  with assms show ?thesis
    by (simp add: value_fn_def wf_value_def mulv_commute nz3_fin3)
next
  case True
  with assms(3) have v: "fin3 v" and u: "norm_vec v = Fin 1" by (simp_all add: wf_value_def)
  have "normalise (mulv t (normalise (mulv s v))) = normalise (mulv t (mulv s v))"
    using assms(1,2) v u by (rule normalise_absorb)
  also have "\<dots> = normalise (mulv s (mulv t v))"
    using assms(1,2) v by (simp add: mulv_commute nz3_fin3)
  also have "\<dots> = normalise (mulv s (normalise (mulv t v)))"
    using assms(2,1) v u by (rule normalise_absorb[symmetric])
  finally show ?thesis using True by (simp add: value_fn_def)
qed

lemma fold_value_wf:
  "list_all nz3 ss \<Longrightarrow> wf_value tg v \<Longrightarrow> wf_value tg (fold (\<lambda>s. value_fn s tg) ss v)"
  by (induction ss arbitrary: v) (simp_all add: value_fn_wf)

lemma fold_value_commute:
  "nz3 t \<Longrightarrow> list_all nz3 ss \<Longrightarrow> wf_value tg v \<Longrightarrow>
     value_fn t tg (fold (\<lambda>s. value_fn s tg) ss v) = fold (\<lambda>s. value_fn s tg) ss (value_fn t tg v)"
proof (induction ss arbitrary: v)
  case Nil
  show ?case by simp
next
  case (Cons s ss)
  from Cons.prems have s: "nz3 s" and ss: "list_all nz3 ss" by simp_all
  have "value_fn t tg (fold (\<lambda>s. value_fn s tg) (s # ss) v)
      = value_fn t tg (fold (\<lambda>s. value_fn s tg) ss (value_fn s tg v))" by simp
  also have "\<dots> = fold (\<lambda>s. value_fn s tg) ss (value_fn t tg (value_fn s tg v))"
    using Cons.prems(1) ss by (rule Cons.IH) (simp add: value_fn_wf s Cons.prems(3))
  also have "value_fn t tg (value_fn s tg v) = value_fn s tg (value_fn t tg v)"
    using s Cons.prems(1,3) by (rule value_fn_commute)
  finally show ?case by simp
qed

lemma list_all_nz3_inv3: "list_all nz3 ss \<Longrightarrow> list_all nz3 (map inv3 ss)"
  by (induction ss) (simp_all add: nz3_inv3)

lemma fold_value_inv:
  "list_all nz3 ss \<Longrightarrow> wf_value tg v \<Longrightarrow>
     fold (\<lambda>s. value_fn s tg) (map inv3 ss) (fold (\<lambda>s. value_fn s tg) ss v) = v"
proof (induction ss arbitrary: v)
  case Nil
  show ?case by simp
next
  case (Cons s ss)
  from Cons.prems have s: "nz3 s" and ss: "list_all nz3 ss" by simp_all
  have w: "wf_value tg (value_fn s tg v)" using s Cons.prems(2) by (rule value_fn_wf)
  have "fold (\<lambda>s. value_fn s tg) (map inv3 (s # ss)) (fold (\<lambda>s. value_fn s tg) (s # ss) v)
      = fold (\<lambda>s. value_fn s tg) (map inv3 ss)
          (value_fn (inv3 s) tg (fold (\<lambda>s. value_fn s tg) ss (value_fn s tg v)))"
    by simp
  also have "value_fn (inv3 s) tg (fold (\<lambda>s. value_fn s tg) ss (value_fn s tg v))
      = fold (\<lambda>s. value_fn s tg) ss (value_fn (inv3 s) tg (value_fn s tg v))"
    using nz3_inv3[OF s] ss w by (rule fold_value_commute)
  also have "value_fn (inv3 s) tg (value_fn s tg v) = v"
    using s Cons.prems(2) by (rule value_fn_inv)
  also have "fold (\<lambda>s. value_fn s tg) (map inv3 ss) (fold (\<lambda>s. value_fn s tg) ss v) = v"
    using ss Cons.prems(2) by (rule Cons.IH)
  finally show ?case .
qed

subsection \<open>The updates on a well-formed element\<close>

lemma floats_fin3: "fin3 v \<Longrightarrow> floats (Nums v) = Inr v"
  by (erule fin3E) simp

lemma np_multiply_fin3: "fin3 v \<Longrightarrow> fin3 s \<Longrightarrow> np_multiply v s = Inr (mulv s v)"
  by (erule fin3E, erule fin3E) (simp add: np_multiply_def broadcast_def mulv_def)

lemma xyz_wf:
  assumes "wf_node tg a" and "tg = ''origin'' \<or> tg = ''axis''"
  obtains v where "map_of a ''xyz'' = Some (Nums v)" and "wf_value tg v"
  using assms by (auto simp: wf_node_def split: option.splits attr.splits)

lemma scale_mesh_wf:
  assumes "wf_node ''mesh'' a" and "fin3 s"
  shows "scale_mesh s a
       = Inr (AList.update ''scale'' (Nums (value_fn s ''mesh'' (value_of ''mesh'' a))) a)"
proof (cases "map_of a ''scale''")
  case None
  then show ?thesis
    using assms(2) by (simp add: scale_mesh_def value_of_def value_fn_def mulv_one)
next
  case (Some x)
  with assms(1) obtain v where x: "x = Nums v" and v: "fin3 v"
    by (cases x) (simp_all add: wf_node_def)
  with Some assms(2) show ?thesis
    by (simp add: scale_mesh_def value_of_def value_fn_def err_bind_def floats_fin3
        np_multiply_fin3)
qed

lemma scale_origin_wf:
  assumes "wf_node ''origin'' a" and "fin3 s"
  shows "scale_origin s a
       = Inr (AList.update ''xyz'' (Nums (value_fn s ''origin'' (value_of ''origin'' a))) a)"
proof -
  from assms(1) obtain v where "map_of a ''xyz'' = Some (Nums v)" and "wf_value ''origin'' v"
    by (rule xyz_wf) simp
  with assms(2) show ?thesis
    by (simp add: scale_origin_def value_of_def value_fn_def err_bind_def floats_fin3
        np_multiply_fin3 wf_value_def)
qed

lemma scale_axis_wf:
  assumes "wf_node ''axis'' a" and "fin3 s"
  shows "scale_axis s a
       = Inr (AList.update ''xyz'' (Nums (value_fn s ''axis'' (value_of ''axis'' a))) a)"
proof -
  from assms(1) obtain v where "map_of a ''xyz'' = Some (Nums v)" and "wf_value ''axis'' v"
    by (rule xyz_wf) simp
  with assms(2) show ?thesis
    by (simp add: scale_axis_def value_of_def value_fn_def err_bind_def floats_fin3
        np_multiply_fin3 wf_value_def normalise_def)
qed

lemma applied_wf_eq:
  assumes "numeric tg" and "wf_node tg a" and "fin3 s"
  shows "applied s tg a
       = AList.update (if tg = ''mesh'' then ''scale'' else ''xyz'')
           (Nums (value_fn s tg (value_of tg a))) a"
proof -
  consider "tg = ''mesh''" | "tg = ''origin''" | "tg = ''axis''"
    using assms(1) by (auto simp: numeric_def)
  then show ?thesis
  proof cases
    case 1
    with assms show ?thesis by (simp add: applied_def scale_mesh_wf)
  next
    case 2
    with assms show ?thesis by (simp add: applied_def scale_origin_wf)
  next
    case 3
    with assms show ?thesis by (simp add: applied_def scale_axis_wf)
  qed
qed

lemma applied_value:
  assumes "numeric tg" and "wf_node tg a" and "fin3 s"
  shows "value_of tg (applied s tg a) = value_fn s tg (value_of tg a)"
  unfolding applied_wf_eq[OF assms] by (simp add: value_of_def update_conv')

lemma wf_node_value: "numeric tg \<Longrightarrow> wf_node tg a \<Longrightarrow> wf_value tg (value_of tg a)"
  by (auto simp: numeric_def wf_node_def value_of_def wf_value_def split: option.splits attr.splits)

lemma applied_wf:
  assumes "wf_node tg a" and "nz3 s"
  shows "wf_node tg (applied s tg a)"
proof (cases "numeric tg")
  case False
  then show ?thesis using assms(1) by (simp add: applied_other)
next
  case True
  have w: "wf_value tg (value_fn s tg (value_of tg a))"
    using assms(2) wf_node_value[OF True assms(1)] by (rule value_fn_wf)
  consider "tg = ''mesh''" | "tg = ''origin''" | "tg = ''axis''"
    using True by (auto simp: numeric_def)
  then show ?thesis
    unfolding applied_wf_eq[OF True assms(1) nz3_fin3[OF assms(2)]]
    using w by cases (simp_all add: wf_node_def update_conv' wf_value_def)
qed

lemma fold_applied_wf:
  "wf_node tg a \<Longrightarrow> list_all nz3 ss \<Longrightarrow> wf_node tg (fold (\<lambda>s. applied s tg) ss a)"
  by (induction ss arbitrary: a) (simp_all add: applied_wf)

lemma fold_applied_value:
  "numeric tg \<Longrightarrow> wf_node tg a \<Longrightarrow> list_all nz3 ss \<Longrightarrow>
     value_of tg (fold (\<lambda>s. applied s tg) ss a) = fold (\<lambda>s. value_fn s tg) ss (value_of tg a)"
proof (induction ss arbitrary: a)
  case Nil
  show ?case by simp
next
  case (Cons s ss)
  from Cons.prems have s: "nz3 s" and ss: "list_all nz3 ss" by simp_all
  have "value_of tg (fold (\<lambda>s. applied s tg) ss (applied s tg a))
      = fold (\<lambda>s. value_fn s tg) ss (value_of tg (applied s tg a))"
    using Cons.prems(1) applied_wf[OF Cons.prems(2) s] ss by (rule Cons.IH)
  then show ?case
    using Cons.prems s by (simp add: applied_value nz3_fin3)
qed

lemma round_trip_node:
  assumes "numeric tg" and "wf_node tg a" and "list_all nz3 ss"
  shows "value_of tg (fold (\<lambda>s. applied s tg) (map inv3 ss) (fold (\<lambda>s. applied s tg) ss a))
       = value_of tg a"
proof -
  have "value_of tg (fold (\<lambda>s. applied s tg) (map inv3 ss) (fold (\<lambda>s. applied s tg) ss a))
      = fold (\<lambda>s. value_fn s tg) (map inv3 ss) (value_of tg (fold (\<lambda>s. applied s tg) ss a))"
    using assms by (simp add: fold_applied_value fold_applied_wf list_all_nz3_inv3)
  also have "\<dots> = fold (\<lambda>s. value_fn s tg) (map inv3 ss)
      (fold (\<lambda>s. value_fn s tg) ss (value_of tg a))"
    using assms by (simp add: fold_applied_value)
  also have "\<dots> = value_of tg a"
    using assms by (simp add: fold_value_inv wf_node_value)
  finally show ?thesis .
qed

subsection \<open>Plans on a well-formed tree\<close>

lemma plan_all_shift: "plan_all Q L \<Longrightarrow> plan_all Q (\<lambda>p. L (i # p))"
  by (simp add: plan_all_def)

lemma plan_allD: "plan_all Q L \<Longrightarrow> list_all Q (L p tg)"
  by (simp add: plan_all_def)

lemma upd_wf:
  "plan_all nz3 L \<Longrightarrow> wf_tree x \<Longrightarrow> wf_tree (upd L x)"
  "plan_all nz3 L \<Longrightarrow> list_all wf_tree xs \<Longrightarrow> list_all wf_tree (upds L i xs)"
  by (induction L x and L i xs rule: upd_upds.induct)
     (simp_all add: fold_applied_wf plan_allD plan_all_shift)

lemma inv_plan_shift: "inv_plan (\<lambda>p. L (i # p)) = (\<lambda>p. inv_plan L (i # p))"
  by (simp add: inv_plan_def)

lemma round_trip_upd:
  "plan_all nz3 L \<Longrightarrow> wf_tree x \<Longrightarrow> readings (upd (inv_plan L) (upd L x)) = readings x"
  "plan_all nz3 L \<Longrightarrow> list_all wf_tree xs \<Longrightarrow>
     concat (map readings (upds (inv_plan L) i (upds L i xs))) = concat (map readings xs)"
proof (induction L x and L i xs rule: upd_upds.induct)
  case (1 L tg a cs)
  have "numeric tg \<Longrightarrow> value_of tg (fold (\<lambda>s. applied s tg) (inv_plan L [] tg)
      (fold (\<lambda>s. applied s tg) (L [] tg) a)) = value_of tg a"
    unfolding inv_plan_def using "1.prems" by (simp add: round_trip_node plan_allD)
  with 1 show ?case by simp
next
  case (2 L i)
  show ?case by simp
next
  case (3 L i c cs)
  have "readings (upd (inv_plan (\<lambda>p. L (i # p))) (upd (\<lambda>p. L (i # p)) c)) = readings c"
    using "3.prems" by (intro "3.IH"(1)) (simp_all add: plan_all_shift)
  moreover have "concat (map readings (upds (inv_plan L) (Suc i) (upds L (Suc i) cs)))
      = concat (map readings cs)"
    using "3.prems" by (intro "3.IH"(2)) simp_all
  ultimately show ?case by (simp add: inv_plan_shift)
qed

subsection \<open>On a well-formed tree the traversal follows its plan\<close>

lemma wf_tree_child: "wf_tree x \<Longrightarrow> k < length (children x) \<Longrightarrow> wf_tree (children x ! k)"
  by (cases x) (simp add: list_all_length)

lemma wf_tree_children: "wf_tree x \<Longrightarrow> list_all wf_tree (children x)"
  by (cases x) simp

lemma iter_update_succeeds:
  "wf_tree x \<Longrightarrow> \<forall>a. wf_node t a \<longrightarrow> (\<exists>a'. f a = Inr a') \<Longrightarrow> \<exists>x'. iter_update t f x = Inr x'"
  "list_all wf_tree xs \<Longrightarrow> \<forall>a. wf_node t a \<longrightarrow> (\<exists>a'. f a = Inr a') \<Longrightarrow>
     \<exists>xs'. iter_update_list t f xs = Inr xs'"
proof (induction t f x and t f xs rule: iter_update_iter_update_list.induct)
  case (1 t f tg a cs)
  from "1.prems" have wa: "wf_node tg a" and wcs: "list_all wf_tree cs" by simp_all
  obtain a' where a': "(if tg = t then f a else Inr a) = Inr a'"
    using wa "1.prems"(2) by (cases "tg = t") auto
  from "1.IH"[OF a' wcs "1.prems"(2)] obtain cs' where "iter_update_list t f cs = Inr cs'"
    by blast
  with a' show ?case by simp
next
  case (2 t f)
  show ?case by simp
next
  case (3 t f c cs)
  from "3.prems" have wc: "wf_tree c" and wcs: "list_all wf_tree cs" by simp_all
  from "3.IH"(1)[OF wc "3.prems"(2)] obtain c' where c': "iter_update t f c = Inr c'" by blast
  from "3.IH"(2)[OF c' wcs "3.prems"(2)] obtain cs' where "iter_update_list t f cs = Inr cs'"
    by blast
  with c' show ?case by simp
qed

lemma scale_elements_succeeds:
  assumes "wf_tree x" and "nz3 s"
  shows "\<exists>x'. scale_elements s x = Inr x'"
proof -
  have s3: "fin3 s" using assms(2) by (rule nz3_fin3)
  from iter_update_succeeds(1)[OF assms(1), of "''mesh''" "scale_mesh s"]
  obtain x1 where 1: "iter_update ''mesh'' (scale_mesh s) x = Inr x1"
    by (auto simp: scale_mesh_wf s3)
  have "x1 = upd (p_tag ''mesh'' s) x"
    using 1 by (rule iter_update_upd(1)) (simp add: applied_mesh)
  then have w1: "wf_tree x1"
    using assms by (simp add: upd_wf plan_all_tag)
  from iter_update_succeeds(1)[OF w1, of "''origin''" "scale_origin s"]
  obtain x2 where "iter_update ''origin'' (scale_origin s) x1 = Inr x2"
    by (auto simp: scale_origin_wf s3)
  with 1 show ?thesis by (simp add: scale_elements_def err_bind_def)
qed

lemma plan_all_once: "Q s \<Longrightarrow> plan_all Q (p_once s)"
  by (simp add: plan_all_def p_once_def)

lemma rescale_link_succeeds:
  "wf_tree x \<Longrightarrow> nz3 s \<Longrightarrow> \<exists>x'. rescale_link s x = Inr x'"
  "list_all wf_tree xs \<Longrightarrow> nz3 s \<Longrightarrow> \<exists>xs'. rescale_links s xs = Inr xs'"
proof (induction s x and s xs rule: rescale_link_rescale_links.induct)
  case (1 scale e)
  from scale_elements_succeeds[OF "1.prems"] obtain e1 where
    e1: "scale_elements scale e = Inr e1" by blast
  have "e1 = upd (p_once scale) e" using e1 by (rule scale_elements_upd)
  then have "wf_tree e1" using "1.prems" by (simp add: upd_wf plan_all_once)
  then have wc: "list_all wf_tree (children e1)" by (rule wf_tree_children)
  from "1.IH"[OF e1 wc "1.prems"(2)] obtain cs' where
    "rescale_links scale (children e1) = Inr cs'" by blast
  with e1 show ?case by (subst rescale_link.simps) simp
next
  case (2 scale)
  show ?case by (simp add: rescale_link.simps)
next
  case (3 scale c cs)
  from "3.prems" have wc: "wf_tree c" and wcs: "list_all wf_tree cs" by simp_all
  from "3.IH"(1)[OF wc "3.prems"(2)] obtain c' where c': "rescale_link scale c = Inr c'" by blast
  from "3.IH"(2)[OF c' wcs "3.prems"(2)] obtain cs' where "rescale_links scale cs = Inr cs'"
    by blast
  with c' show ?case by (simp add: rescale_link.simps)
qed

lemma joint_step_succeeds:
  assumes wf: "wf_tree U" and s: "nz3 s"
    and j: "j < length (children U)" and tj: "tag (children U ! j) = ''joint''"
    and j0: "j0 < length (children U)"
    and c: "link_of ''child'' (children U ! j0) = Inr c"
    and r: "(case rpy_of U j of None \<Rightarrow> Inr s | Some a \<Rightarrow> rotate_scale rot s a) = Inr s1"
    and s1: "nz3 s1"
  shows "joint_step rot j0 j U s
       = Inr (upd (p_then (at_child j (p_tag ''origin'' s)) (p_tag ''axis'' s1)) U, s1, Some c)"
proof -
  have wj: "wf_tree (children U ! j)" using wf j by (rule wf_tree_child)
  from iter_update_succeeds(1)[OF wj, of "''origin''" "scale_origin s"]
  obtain jn where jn: "iter_update ''origin'' (scale_origin s) (children U ! j) = Inr jn"
    by (auto simp: scale_origin_wf nz3_fin3[OF s])
  have "agree_off [''origin''] (children U ! j) jn"
    using jn by (rule iter_update_agree)
  then have "attrib jn = attrib (children U ! j)"
    by (rule agree_offD(2)) (simp add: tj)
  with r have r': "(case map_of (attrib jn) ''rpy'' of None \<Rightarrow> Inr s
      | Some a \<Rightarrow> rotate_scale rot s a) = Inr s1"
    by (simp add: rpy_of_def)
  have "jn = upd (p_tag ''origin'' s) (children U ! j)"
    using jn by (rule iter_update_upd(1)) (simp add: applied_origin)
  then have sc: "set_child U j jn = upd (at_child j (p_tag ''origin'' s)) U"
    using j by (simp add: set_child_upd)
  then have "wf_tree (set_child U j jn)"
    using wf s by (simp add: upd_wf plan_all_at_child plan_all_tag)
  from iter_update_succeeds(1)[OF this, of "''axis''" "scale_axis s1"]
  obtain U1 where U1: "iter_update ''axis'' (scale_axis s1) (set_child U j jn) = Inr U1"
    by (auto simp: scale_axis_wf nz3_fin3[OF s1])
  have "agree_off [''origin''] U (set_child U j jn)"
    using iter_update_agree(1)[OF jn] by (rule set_child_agree)
  then have "agree_off [''origin'', ''axis''] U (set_child U j jn)"
    by (rule agree_off_mono[rotated]) simp
  moreover have "agree_off [''origin'', ''axis''] (set_child U j jn) U1"
    using iter_update_agree(1)[OF U1] by (rule agree_off_mono[rotated]) simp
  ultimately have "agree_off [''origin'', ''axis''] U U1" by (rule agree_off_trans)
  then have "agree_off [''origin'', ''axis''] (children U ! j0) (children U1 ! j0)"
    using j0 by (rule agree_off_nth)
  then have "link_of ''child'' (children U1 ! j0) = link_of ''child'' (children U ! j0)"
    by (rule link_of_agree) simp
  with c have c1: "link_of ''child'' (children U1 ! j0) = Inr c" by simp
  have run: "joint_step rot j0 j U s = Inr (U1, s1, Some c)"
    unfolding joint_step_def by (simp only: jn err_bind_def sum.case r' U1 c1)
  from joint_step_upd[OF run j] run show ?thesis by simp
qed

lemma aligned_rotate:
  assumes al: "axis_aligned rot a" and nz: "nz3 s"
  shows "\<exists>s1. rotate_scale rot s a = Inr s1 \<and> nz3 s1
           \<and> rotate_scale rot (inv3 s) a = Inr (inv3 s1)"
proof -
  from al obtain i j k where ijk: "{i, j, k} = {0, 1, 2::nat}"
    and R: "\<And>x y z. rotate_scale rot [Fin x, Fin y, Fin z] a
              = Inr [Fin \<bar>[x, y, z] ! i\<bar>, Fin \<bar>[x, y, z] ! j\<bar>, Fin \<bar>[x, y, z] ! k\<bar>]"
    unfolding axis_aligned_def by blast
  from nz obtain x y z where s: "s = [Fin x, Fin y, Fin z]"
    and x: "x \<noteq> 0" and y: "y \<noteq> 0" and z: "z \<noteq> 0" by (rule nz3E)
  have "i \<in> {i, j, k}" and "j \<in> {i, j, k}" and "k \<in> {i, j, k}" by simp_all
  then have m: "i \<in> {0, 1, 2}" "j \<in> {0, 1, 2}" "k \<in> {0, 1, 2}"
    unfolding ijk by simp_all
  have nth: "[x, y, z] ! m \<noteq> 0 \<and> [1 / x, 1 / y, 1 / z] ! m = 1 / ([x, y, z] ! m)"
    if "m \<in> {0, 1, 2::nat}" for m
    using that x y z by auto
  define s1 where "s1 = [Fin \<bar>[x, y, z] ! i\<bar>, Fin \<bar>[x, y, z] ! j\<bar>, Fin \<bar>[x, y, z] ! k\<bar>]"
  have 1: "rotate_scale rot s a = Inr s1"
    unfolding s s1_def by (rule R)
  have 2: "nz3 s1"
    unfolding s1_def using nth[OF m(1)] nth[OF m(2)] nth[OF m(3)] by simp
  have iv: "inv3 s = [Fin (1 / x), Fin (1 / y), Fin (1 / z)]"
    using x y z by (simp add: inv3_def s)
  have "inv3 s1 = [Fin (1 / \<bar>[x, y, z] ! i\<bar>), Fin (1 / \<bar>[x, y, z] ! j\<bar>),
      Fin (1 / \<bar>[x, y, z] ! k\<bar>)]"
    unfolding s1_def inv3_def using nth[OF m(1)] nth[OF m(2)] nth[OF m(3)] by simp
  also have "\<dots> = [Fin \<bar>[1 / x, 1 / y, 1 / z] ! i\<bar>, Fin \<bar>[1 / x, 1 / y, 1 / z] ! j\<bar>,
      Fin \<bar>[1 / x, 1 / y, 1 / z] ! k\<bar>]"
    using nth[OF m(1)] nth[OF m(2)] nth[OF m(3)] by (simp add: abs_divide)
  finally have 3: "rotate_scale rot (inv3 s) a = Inr (inv3 s1)"
    unfolding iv by (simp add: R)
  from 1 2 3 show ?thesis by blast
qed

lemma for_joints_succeeds:
  assumes "wf_tree U" and "nz3 s"
    and "\<And>j. j \<in> set js \<Longrightarrow> j < length (children U) \<and> tag (children U ! j) = ''joint''"
    and "j0 < length (children U)"
    and "link_of ''child'' (children U ! j0) = Inr c"
    and "\<And>j. j \<in> set js \<Longrightarrow>
           (case rpy_of U j of None \<Rightarrow> True | Some a \<Rightarrow> axis_aligned rot a)"
    and "joints_plan rot U s js = Inr (L, s')"
  shows "for_joints rot j0 js (U, s, pn) = Inr (upd L U, s', if js = [] then pn else Some c)"
  using assms
proof (induction js arbitrary: U s pn L)
  case Nil
  then show ?case by (simp add: upd_none)
next
  case (Cons j js)
  note wf = Cons.prems(1) and s = Cons.prems(2) and ok = Cons.prems(3) and j0 = Cons.prems(4)
    and c = Cons.prems(5) and al = Cons.prems(6)
  from Cons.prems(7) obtain s1 L' where
    r: "(case rpy_of U j of None \<Rightarrow> Inr s | Some a \<Rightarrow> rotate_scale rot s a) = Inr s1"
    and L': "joints_plan rot U s1 js = Inr (L', s')"
    and L: "L = p_then (p_then (at_child j (p_tag ''origin'' s)) (p_tag ''axis'' s1)) L'"
    by (auto simp: err_bind_def split: sum.splits)
  have j: "j < length (children U)" and tj: "tag (children U ! j) = ''joint''"
    using ok[of j] by simp_all
  have s1: "nz3 s1"
  proof (cases "rpy_of U j")
    case None
    with r s show ?thesis by simp
  next
    case (Some a)
    with al[of j] have "axis_aligned rot a" by simp
    with Some r s show ?thesis by (auto dest: aligned_rotate)
  qed
  define E where "E = p_then (at_child j (p_tag ''origin'' s)) (p_tag ''axis'' s1)"
  have step: "joint_step rot j0 j U s = Inr (upd E U, s1, Some c)"
    unfolding E_def using wf s j tj j0 c r s1 by (rule joint_step_succeeds)
  have pE: "plan_all nz3 E"
    unfolding E_def using s s1 by (simp add: plan_all_then plan_all_at_child plan_all_tag)
  have w1: "wf_tree (upd E U)" using pE wf by (rule upd_wf)
  have ok1: "i < length (children (upd E U)) \<and> tag (children (upd E U) ! i) = ''joint''"
    if "i \<in> set js" for i
    using ok[of i] that by (simp add: upds_nth)
  have j01: "j0 < length (children (upd E U))" using j0 by simp
  have c1: "link_of ''child'' (children (upd E U) ! j0) = Inr c"
    using upd_link_of_child[OF j0, of E] c by simp
  have al1: "(case rpy_of (upd E U) i of None \<Rightarrow> True | Some a \<Rightarrow> axis_aligned rot a)"
    if "i \<in> set js" for i
    using al[of i] ok[of i] that by (simp add: rpy_of_upd)
  have "joints_plan rot (upd E U) s1 js = joints_plan rot U s1 js"
    by (rule joints_plan_upd) (simp add: ok)
  with L' have L1: "joints_plan rot (upd E U) s1 js = Inr (L', s')" by simp
  have rest: "for_joints rot j0 js (upd E U, s1, Some c)
      = Inr (upd L' (upd E U), s', if js = [] then Some c else Some c)"
    using w1 s1 ok1 j01 c1 al1 L1 by (rule Cons.IH)
  have "for_joints rot j0 (j # js) (U, s, pn) = for_joints rot j0 js (upd E U, s1, Some c)"
    using step by (simp add: err_bind_def)
  also have "\<dots> = Inr (upd L' (upd E U), s', Some c)"
    using rest by simp
  also have "upd L' (upd E U) = upd L U"
    by (simp add: upd_then L E_def)
  finally show ?case by simp
qed

lemma step_plan_cases:
  assumes "step_plan rot T s n = Inr (L, s', nx)"
  obtains (leaf) l ls where "select ''link'' (has_name n) (children T) 0 = Inr (l # ls)"
      and "select ''joint'' (has_parent n) (children T) 0 = Inr []"
      and "L = at_child l (p_link s)" and "s' = s" and "nx = None"
    | (joints) l ls j0 js L' c where "select ''link'' (has_name n) (children T) 0 = Inr (l # ls)"
      and "select ''joint'' (has_parent n) (children T) 0 = Inr (j0 # js)"
      and "joints_plan rot T s (j0 # js) = Inr (L', s')"
      and "link_of ''child'' (children T ! j0) = Inr c"
      and "L = p_then (at_child l (p_link s)) L'" and "nx = Some c"
proof -
  from assms obtain l ls js where
    l: "select ''link'' (has_name n) (children T) 0 = Inr (l # ls)"
    and js: "select ''joint'' (has_parent n) (children T) 0 = Inr js"
    and r: "(case js of
               [] \<Rightarrow> Inr (at_child l (p_link s), s, None)
             | j0 # js' \<Rightarrow>
                 err_bind (joints_plan rot T s js) (\<lambda>(L, s').
                 err_bind (link_of ''child'' (children T ! j0)) (\<lambda>c.
                   Inr (p_then (at_child l (p_link s)) L, s', Some c)))) = Inr (L, s', nx)"
    by (auto simp: step_plan_def err_bind_def split: sum.splits list.splits
        simp del: joints_plan.simps)
  show ?thesis
  proof (cases js)
    case Nil
    with r l js show ?thesis by (auto intro: leaf)
  next
    case (Cons j0 js')
    with r obtain L' c where "joints_plan rot T s (j0 # js') = Inr (L', s')"
      and "link_of ''child'' (children T ! j0) = Inr c"
      and "L = p_then (at_child l (p_link s)) L'" and "nx = Some c"
      by (auto simp: err_bind_def split: sum.splits simp del: joints_plan.simps)
    with l js Cons show ?thesis by (auto intro: joints simp del: joints_plan.simps)
  qed
qed

lemma step_plan_leaf:
  "select ''link'' (has_name n) (children T) 0 = Inr (l # ls) \<Longrightarrow>
   select ''joint'' (has_parent n) (children T) 0 = Inr [] \<Longrightarrow>
     step_plan rot T s n = Inr (at_child l (p_link s), s, None)"
  by (simp add: step_plan_def err_bind_def)

lemma step_plan_joints:
  "select ''link'' (has_name n) (children T) 0 = Inr (l # ls) \<Longrightarrow>
   select ''joint'' (has_parent n) (children T) 0 = Inr (j0 # js) \<Longrightarrow>
   joints_plan rot T s (j0 # js) = Inr (L', s') \<Longrightarrow>
   link_of ''child'' (children T ! j0) = Inr c \<Longrightarrow>
     step_plan rot T s n = Inr (p_then (at_child l (p_link s)) L', s', Some c)"
  by (simp add: step_plan_def err_bind_def del: joints_plan.simps)

lemma aligned_joint:
  "aligned rot T \<Longrightarrow> j < length (children T) \<Longrightarrow> tag (children T ! j) = ''joint'' \<Longrightarrow>
     (case rpy_of T j of None \<Rightarrow> True | Some a \<Rightarrow> axis_aligned rot a)"
  by (auto simp: aligned_def list_all_length rpy_of_def)

lemma aligned_agree:
  assumes "agree_off T tree tree'" and "''joint'' \<notin> set T" and "aligned rot tree"
  shows "aligned rot tree'"
proof -
  have "list_all2 (agree_off T) (children tree) (children tree')"
    using assms(1) by (rule agree_offD)
  then show ?thesis
    using assms(3) unfolding aligned_def
  proof (induction rule: list_all2_induct)
    case Nil
    show ?case by simp
  next
    case (Cons c cs c' cs')
    from agree_offD(1,2)[OF Cons.hyps(1)] assms(2) Cons.prems Cons.IH
    show ?case by auto
  qed
qed

lemma aligned_upd: "aligned rot T \<Longrightarrow> aligned rot (upd L T)"
  using upd_agree(1)[of T L] by (rule aligned_agree) simp_all

lemma loop_body_succeeds:
  assumes wf: "wf_tree T" and s: "nz3 s" and al: "aligned rot T"
    and sp: "step_plan rot T s n = Inr (L, s', nx)"
  shows "loop_body rot T s n = Inr (upd L T, s', nx)"
proof -
  from sp obtain l ls js where
    l: "select ''link'' (has_name n) (children T) 0 = Inr (l # ls)"
    and js: "select ''joint'' (has_parent n) (children T) 0 = Inr js"
    by (cases rule: step_plan_cases) auto
  from select_sound0[OF l, of l] have l_lt: "l < length (children T)" by simp
  have wl: "wf_tree (children T ! l)" using wf l_lt by (rule wf_tree_child)
  from rescale_link_succeeds(1)[OF wl s] obtain pl where
    pl: "rescale_link s (children T ! l) = Inr pl" by blast
  define T1 where "T1 = upd (at_child l (p_link s)) T"
  have "pl = upd (p_link s) (children T ! l)" using pl by (rule rescale_link_upd)
  then have sc: "set_child T l pl = T1"
    unfolding T1_def using l_lt by (simp add: set_child_upd)
  have sj: "select ''joint'' (has_parent n) (children T1) 0 = Inr js"
    unfolding T1_def select_joints_upd by (rule js)
  have body: "loop_body rot T s n
      = (case js of [] \<Rightarrow> Inr (T1, s, None)
         | j0 # js' \<Rightarrow> for_joints rot j0 (j0 # js') (T1, s, Some n))"
    unfolding loop_body_def
    by (simp add: l err_bind_def pl sc sj del: for_joints.simps)
  have w1: "wf_tree T1"
    unfolding T1_def using s wf by (simp add: upd_wf plan_all_at_child plan_all_link)
  from sp show ?thesis
  proof (cases rule: step_plan_cases)
    case (leaf l' ls')
    with l js have "js = []" and "l' = l" by simp_all
    with body leaf show ?thesis by (simp add: T1_def)
  next
    case (joints l' ls' j0 js' L' c)
    with l js have jsc: "js = j0 # js'" and ll: "l' = l" by simp_all
    have ok: "i < length (children T) \<and> tag (children T ! i) = ''joint''" if "i \<in> set js" for i
      using select_sound0[OF js that] .
    have ok1: "i < length (children T1) \<and> tag (children T1 ! i) = ''joint''" if "i \<in> set js" for i
      using ok[OF that] by (simp add: T1_def upds_nth)
    have j0: "j0 < length (children T)" using ok[of j0] jsc by simp
    then have j01: "j0 < length (children T1)" by (simp add: T1_def)
    have c1: "link_of ''child'' (children T1 ! j0) = Inr c"
      unfolding T1_def using upd_link_of_child[OF j0] joints(4) by simp
    have al1: "(case rpy_of T1 i of None \<Rightarrow> True | Some a \<Rightarrow> axis_aligned rot a)"
      if "i \<in> set js" for i
      using aligned_joint[OF al] ok[OF that] by (simp add: T1_def rpy_of_upd)
    have "joints_plan rot T1 s js = joints_plan rot T s js"
      unfolding T1_def by (rule joints_plan_upd) (simp add: ok)
    with joints(3) jsc have jp: "joints_plan rot T1 s js = Inr (L', s')" by simp
    have "for_joints rot j0 js (T1, s, Some n)
        = Inr (upd L' T1, s', if js = [] then Some n else Some c)"
      using w1 s ok1 j01 c1 al1 jp by (rule for_joints_succeeds)
    then have "loop_body rot T s n = Inr (upd L' T1, s', Some c)"
      using body jsc by simp
    moreover have "upd L' T1 = upd L T"
      by (simp add: T1_def upd_then joints(5) ll)
    ultimately show ?thesis using joints(6) by simp
  qed
qed

subsection \<open>The plan of the way back\<close>

lemma inv_plan_none: "inv_plan p_none = p_none"
  by (simp add: inv_plan_def p_none_def)

lemma inv_plan_tag: "inv_plan (p_tag t s) = p_tag t (inv3 s)"
  by (auto simp: inv_plan_def p_tag_def fun_eq_iff)

lemma inv_plan_link: "inv_plan (p_link s) = p_link (inv3 s)"
  by (auto simp: inv_plan_def p_link_def fun_eq_iff)

lemma inv_plan_at_child: "inv_plan (at_child l L) = at_child l (inv_plan L)"
  by (auto simp: inv_plan_def at_child_def fun_eq_iff split: list.splits)

lemma inv_plan_then: "inv_plan (p_then A B) = p_then (inv_plan A) (inv_plan B)"
  by (simp add: inv_plan_def p_then_def)

lemmas inv_plan_simps = inv_plan_none inv_plan_tag inv_plan_link inv_plan_at_child inv_plan_then

lemma joints_plan_aligned:
  assumes "\<And>j. j \<in> set js \<Longrightarrow>
             (case rpy_of T j of None \<Rightarrow> True | Some a \<Rightarrow> axis_aligned rot a)"
    and "nz3 s" and "joints_plan rot T s js = Inr (L, s')"
  shows "nz3 s' \<and> plan_all nz3 L \<and> joints_plan rot T (inv3 s) js = Inr (inv_plan L, inv3 s')"
  using assms
proof (induction js arbitrary: s L)
  case Nil
  then show ?case by (simp add: plan_all_none inv_plan_none)
next
  case (Cons j js)
  note al = Cons.prems(1) and s = Cons.prems(2)
  from Cons.prems(3) obtain s1 L' where
    r: "(case rpy_of T j of None \<Rightarrow> Inr s | Some a \<Rightarrow> rotate_scale rot s a) = Inr s1"
    and L': "joints_plan rot T s1 js = Inr (L', s')"
    and L: "L = p_then (p_then (at_child j (p_tag ''origin'' s)) (p_tag ''axis'' s1)) L'"
    by (auto simp: err_bind_def split: sum.splits)
  have s1: "nz3 s1 \<and> (case rpy_of T j of None \<Rightarrow> Inr (inv3 s)
      | Some a \<Rightarrow> rotate_scale rot (inv3 s) a) = Inr (inv3 s1)"
  proof (cases "rpy_of T j")
    case None
    with r s show ?thesis by simp
  next
    case (Some a)
    with al[of j] have "axis_aligned rot a" by simp
    from aligned_rotate[OF this s] Some r show ?thesis by auto
  qed
  have "nz3 s' \<and> plan_all nz3 L' \<and> joints_plan rot T (inv3 s1) js = Inr (inv_plan L', inv3 s')"
    using _ _ L' by (rule Cons.IH) (simp_all add: al s1)
  with s1 s show ?case
    by (simp add: L err_bind_def inv_plan_simps plan_all_then plan_all_at_child plan_all_tag)
qed

lemma step_plan_aligned:
  assumes al: "aligned rot T" and s: "nz3 s" and sp: "step_plan rot T s n = Inr (L, s', nx)"
  shows "nz3 s' \<and> plan_all nz3 L \<and> step_plan rot T (inv3 s) n = Inr (inv_plan L, inv3 s', nx)"
  using sp
proof (cases rule: step_plan_cases)
  case (leaf l ls)
  from step_plan_leaf[OF leaf(1,2), of rot "inv3 s"] leaf s show ?thesis
    by (simp add: inv_plan_simps plan_all_at_child plan_all_link)
next
  case (joints l ls j0 js L' c)
  have "(case rpy_of T j of None \<Rightarrow> True | Some a \<Rightarrow> axis_aligned rot a)"
    if "j \<in> set (j0 # js)" for j
    using select_sound0[OF joints(2) that] al by (simp add: aligned_joint)
  from joints_plan_aligned[OF this s joints(3)]
  have s': "nz3 s'" and pL: "plan_all nz3 L'"
    and jp: "joints_plan rot T (inv3 s) (j0 # js) = Inr (inv_plan L', inv3 s')"
    by simp_all
  from step_plan_joints[OF joints(1,2) jp joints(4)] s' pL s joints(5,6) show ?thesis
    by (simp add: inv_plan_simps plan_all_then plan_all_at_child plan_all_link)
qed

lemma run_plan_aligned:
  "aligned rot T \<Longrightarrow> nz3 s \<Longrightarrow> run_plan k rot T s start = Some (Inr (L, s')) \<Longrightarrow>
     nz3 s' \<and> plan_all nz3 L \<and> run_plan k rot T (inv3 s) start = Some (Inr (inv_plan L, inv3 s'))"
proof (induction k arbitrary: s start L)
  case 0
  then show ?case by (cases start) (simp_all add: plan_all_none inv_plan_none)
next
  case (Suc k)
  show ?case
  proof (cases start)
    case None
    with Suc.prems show ?thesis by (simp add: plan_all_none inv_plan_none)
  next
    case (Some n)
    from Suc.prems(3)[unfolded Some] obtain L1 s1 nx L2 where
      sp: "step_plan rot T s n = Inr (L1, s1, nx)"
      and rp: "run_plan k rot T s1 nx = Some (Inr (L2, s'))" and L: "L = p_then L1 L2"
      by (rule run_plan_Suc)
    from step_plan_aligned[OF Suc.prems(1,2) sp] have s1: "nz3 s1" and p1: "plan_all nz3 L1"
      and sp': "step_plan rot T (inv3 s) n = Inr (inv_plan L1, inv3 s1, nx)" by simp_all
    from Suc.IH[OF Suc.prems(1) s1 rp] have s': "nz3 s'" and p2: "plan_all nz3 L2"
      and rp': "run_plan k rot T (inv3 s1) nx = Some (Inr (inv_plan L2, inv3 s'))" by simp_all
    from sp' rp' s' p1 p2 show ?thesis
      by (simp add: Some L inv_plan_then plan_all_then)
  qed
qed

lemma while_loop_succeeds:
  "wf_tree T \<Longrightarrow> aligned rot T \<Longrightarrow> nz3 s \<Longrightarrow> run_plan k rot T s start = Some (Inr (L, s')) \<Longrightarrow>
     while_loop k rot T s start = Some (Inr (upd L T, s'))"
proof (induction k arbitrary: T s start L)
  case 0
  then show ?case by (cases start) (simp_all add: upd_none)
next
  case (Suc k)
  show ?case
  proof (cases start)
    case None
    with Suc.prems show ?thesis by (simp add: upd_none)
  next
    case (Some n)
    from Suc.prems(4)[unfolded Some] obtain L1 s1 nx L2 where
      sp: "step_plan rot T s n = Inr (L1, s1, nx)"
      and rp: "run_plan k rot T s1 nx = Some (Inr (L2, s'))" and L: "L = p_then L1 L2"
      by (rule run_plan_Suc)
    from step_plan_aligned[OF Suc.prems(2,3) sp] have s1: "nz3 s1" and p1: "plan_all nz3 L1"
      by simp_all
    have b: "loop_body rot T s n = Inr (upd L1 T, s1, nx)"
      using Suc.prems(1,3,2) sp by (rule loop_body_succeeds)
    have w1: "wf_tree (upd L1 T)" using p1 Suc.prems(1) by (rule upd_wf)
    have a1: "aligned rot (upd L1 T)" using Suc.prems(2) by (rule aligned_upd)
    have "run_plan k rot (upd L1 T) s1 nx = Some (Inr (L2, s'))"
      using rp by (simp add: run_plan_upd)
    from Suc.IH[OF w1 a1 s1 this] b show ?thesis
      by (simp add: Some L upd_then)
  qed
qed

lemma round_trip_loop:
  assumes wf: "wf_tree T" and al: "aligned rot T" and s: "nz3 s"
    and run: "while_loop k rot T s start = Some (Inr (T1, s1))"
  shows "\<exists>T2. while_loop k rot T1 (inv3 s) start = Some (Inr (T2, inv3 s1))
           \<and> readings T2 = readings T"
proof -
  from while_loop_upd[OF run] obtain L where
    rp: "run_plan k rot T s start = Some (Inr (L, s1))" and T1: "T1 = upd L T" by blast
  from run_plan_aligned[OF al s rp] have pL: "plan_all nz3 L"
    and rp': "run_plan k rot T (inv3 s) start = Some (Inr (inv_plan L, inv3 s1))" by simp_all
  have w1: "wf_tree T1" unfolding T1 using pL wf by (rule upd_wf)
  have a1: "aligned rot T1" unfolding T1 using al by (rule aligned_upd)
  have "run_plan k rot T1 (inv3 s) start = Some (Inr (inv_plan L, inv3 s1))"
    unfolding T1 using rp' by (simp add: run_plan_upd)
  from while_loop_succeeds[OF w1 a1 nz3_inv3[OF s] this]
  have "while_loop k rot T1 (inv3 s) start = Some (Inr (upd (inv_plan L) T1, inv3 s1))" .
  moreover have "readings (upd (inv_plan L) T1) = readings T"
    unfolding T1 using pL wf by (rule round_trip_upd)
  ultimately show ?thesis by blast
qed

subsection \<open>The examples\<close>

lemma sin_arccos_3_5: "sin (arccos (3/5)) = 4/5"
proof -
  have "sin (arccos (3/5)) = sqrt (1 - (3/5)\<^sup>2)"
    by (rule sin_arccos) simp_all
  also have "1 - (3/5 :: real)\<^sup>2 = (4/5)\<^sup>2"
    by (simp add: power2_eq_square)
  also have "sqrt ((4/5 :: real)\<^sup>2) = 4/5"
    by simp
  finally show ?thesis .
qed

lemma fwd_flat: "InteractiveObj2_init 1 rotate_vector_3d (scene_element [Fin 0, Fin 1, Fin 1])
      (bbox_of [Fin 1, Fin 1, Fin 1])
      (chair_tree [(''filename'', Text ''chair.obj''), (''scale'', Nums [Fin 1, Fin 2, Fin 4])])
    = Some (Inr (chair_tree [(''filename'', Text ''chair.obj''),
                            (''scale'', Nums [Fin 0, Fin 2, Fin 4])]))"
  by (simp add: tree_eval chair_tree_def bbox_of_def)

lemma bwd_flat: "InteractiveObj2_init 1 rotate_vector_3d (scene_element [Fin 1, Fin 1, Fin 1])
      (bbox_of [Fin 0, Fin 1, Fin 1])
      (chair_tree [(''filename'', Text ''chair.obj''), (''scale'', Nums [Fin 0, Fin 2, Fin 4])])
    = Some (Inr (chair_tree [(''filename'', Text ''chair.obj''),
                            (''scale'', Nums [NaN, Fin 2, Fin 4])]))"
  by (simp add: tree_eval chair_tree_def bbox_of_def)

lemma fwd_arm: "InteractiveObj2_init 2 rotate_vector_3d (scene_element [Fin 1, Fin 2, Fin 1])
      (bbox_of [Fin 1, Fin 1, Fin 1]) (arm_tree [Fin 1, Fin 1, Fin 1])
    = Some (Inr (arm_tree [Fin (121/25), Fin (4/25), Fin 1]))"
  by (simp add: tree_eval arm_tree_def bbox_of_def rotate_vector_3d_def rot_x_def rot_y_def
      rot_z_def sin_arccos_3_5 numeral_2_eq_2)

lemma bwd_arm: "InteractiveObj2_init 2 rotate_vector_3d (scene_element [Fin 1, Fin 1, Fin 1])
      (bbox_of [Fin 1, Fin 2, Fin 1]) (arm_tree [Fin (121/25), Fin (4/25), Fin 1])
    = Some (Inr (arm_tree [Fin (121/25), Fin (1/25), Fin 1]))"
  by (simp add: tree_eval arm_tree_def bbox_of_def rotate_vector_3d_def rot_x_def rot_y_def
      rot_z_def sin_arccos_3_5 numeral_2_eq_2)

lemma fwd_long: "InteractiveObj2_init 2 rotate_vector_3d (scene_element [Fin 2, Fin 2, Fin 2])
      (bbox_of [Fin 1, Fin 1, Fin 1]) (door_tree [Fin 2, Fin 0, Fin 0])
    = Some (Inr (door_tree [Fin 1, Fin 0, Fin 0]))"
  by (simp add: tree_eval door_tree_def bbox_of_def numeral_2_eq_2)

lemma sqrt_quarter: "sqrt (1 / 4) = 1 / 2"
  by (simp add: real_sqrt_divide)

lemma bwd_long: "InteractiveObj2_init 2 rotate_vector_3d (scene_element [Fin 1, Fin 1, Fin 1])
      (bbox_of [Fin 2, Fin 2, Fin 2]) (door_tree [Fin 1, Fin 0, Fin 0])
    = Some (Inr (door_tree [Fin 1, Fin 0, Fin 0]))"
  by (simp add: tree_eval door_tree_def bbox_of_def numeral_2_eq_2 sqrt_quarter)

lemma fwd_single: "InteractiveObj2_init 1 rotate_vector_3d (scene_element [Fin 2, Fin 1, Fin (1/2)])
      (bbox_of [Fin 1, Fin 1, Fin 1])
      (chair_tree [(''filename'', Text ''chair.obj''), (''scale'', Nums [Fin 2])])
    = Some (Inr (chair_tree [(''filename'', Text ''chair.obj''),
                            (''scale'', Nums [Fin 32, Fin 2, Fin (1/8)])]))"
  by (simp add: tree_eval chair_tree_def bbox_of_def)

lemma bwd_single: "InteractiveObj2_init 1 rotate_vector_3d (scene_element [Fin 1, Fin 1, Fin 1])
      (bbox_of [Fin 2, Fin 1, Fin (1/2)])
      (chair_tree [(''filename'', Text ''chair.obj''),
                   (''scale'', Nums [Fin 32, Fin 2, Fin (1/8)])])
    = Some (Inr (chair_tree [(''filename'', Text ''chair.obj''),
                            (''scale'', Nums [Fin 2, Fin 2, Fin 2])]))"
  by (simp add: tree_eval chair_tree_def bbox_of_def)

lemma quarter_yaw: "axis_aligned rotate_vector_3d (Nums [Fin 0, Fin 0, Fin (pi / 2)])"
proof -
  have "rotate_scale rotate_vector_3d [Fin x, Fin y, Fin z] (Nums [Fin 0, Fin 0, Fin (pi / 2)])
      = Inr [Fin \<bar>[x, y, z] ! 1\<bar>, Fin \<bar>[x, y, z] ! 0\<bar>, Fin \<bar>[x, y, z] ! 2\<bar>]" for x y z
    by (simp add: rotate_scale_def err_bind_def np_absolute_def rotate_vector_3d_def rot_x_def
        rot_y_def rot_z_def fsub_def)
  moreover have "{1, 0, 2} = {0, 1, 2::nat}" by auto
  ultimately show ?thesis
    unfolding axis_aligned_def
    by (intro exI[of _ "1::nat"] exI[of _ "0::nat"] exI[of _ "2::nat"]) simp
qed

lemma turned_pass_1:
  "loop_body rotate_vector_3d
     (cabinet_tree turned_hinge [Fin 1, Fin 2, Fin 4] [(''filename'', Text ''body.obj'')]
        [Fin 1, Fin 1, Fin 1] [Fin 1, Fin 0, Fin 0] [Fin (3/5), Fin (4/5), Fin 0])
     [Fin (3/4), Fin (4/3), Fin (1/2)] (Text ''base_link'')
   = Inr (cabinet_tree turned_hinge [Fin (27/64), Fin (128/27), Fin (1/2)]
            [(''filename'', Text ''body.obj''),
             (''scale'', Nums [Fin (81/256), Fin (256/81), Fin (1/16)])]
            [Fin 1, Fin 1, Fin 1] [Fin (3/4), Fin 0, Fin 0] [Fin (4/5), Fin (3/5), Fin 0],
          [Fin (4/3), Fin (3/4), Fin (1/2)], Some (Text ''door''))"
  by (simp add: tree_eval cabinet_tree_def turned_hinge_def rotate_vector_3d_def rot_x_def
      rot_y_def rot_z_def)

lemma turned_pass_2:
  "loop_body rotate_vector_3d
     (cabinet_tree turned_hinge [Fin (27/64), Fin (128/27), Fin (1/2)]
        [(''filename'', Text ''body.obj''),
         (''scale'', Nums [Fin (81/256), Fin (256/81), Fin (1/16)])]
        [Fin 1, Fin 1, Fin 1] [Fin (3/4), Fin 0, Fin 0] [Fin (4/5), Fin (3/5), Fin 0])
     [Fin (4/3), Fin (3/4), Fin (1/2)] (Text ''door'')
   = Inr (cabinet_tree turned_hinge [Fin (27/64), Fin (128/27), Fin (1/2)]
            [(''filename'', Text ''body.obj''),
             (''scale'', Nums [Fin (81/256), Fin (256/81), Fin (1/16)])]
            [Fin (256/81), Fin (81/256), Fin (1/16)] [Fin (3/4), Fin 0, Fin 0]
            [Fin (4/5), Fin (3/5), Fin 0],
          [Fin (4/3), Fin (3/4), Fin (1/2)], None)"
  by (simp add: tree_eval cabinet_tree_def turned_hinge_def)

lemma fwd_turned:
  "InteractiveObj2_init 2 rotate_vector_3d (scene_element [Fin (3/4), Fin (4/3), Fin (1/2)])
      (bbox_of [Fin 1, Fin 1, Fin 1])
      (cabinet_tree turned_hinge [Fin 1, Fin 2, Fin 4] [(''filename'', Text ''body.obj'')]
         [Fin 1, Fin 1, Fin 1] [Fin 1, Fin 0, Fin 0] [Fin (3/5), Fin (4/5), Fin 0])
    = Some (Inr (cabinet_tree turned_hinge [Fin (27/64), Fin (128/27), Fin (1/2)]
         [(''filename'', Text ''body.obj''),
          (''scale'', Nums [Fin (81/256), Fin (256/81), Fin (1/16)])]
         [Fin (256/81), Fin (81/256), Fin (1/16)] [Fin (3/4), Fin 0, Fin 0]
         [Fin (4/5), Fin (3/5), Fin 0]))"
  by (simp add: InteractiveObj2_init_def scene_element_def bbox_of_def base_scale_def
      err_bind_def np_subtract_def np_divide_def broadcast_def fsub_def numeral_2_eq_2
      turned_pass_1 turned_pass_2)

lemma turned_back_1:
  "loop_body rotate_vector_3d
     (cabinet_tree turned_hinge [Fin (27/64), Fin (128/27), Fin (1/2)]
        [(''filename'', Text ''body.obj''),
         (''scale'', Nums [Fin (81/256), Fin (256/81), Fin (1/16)])]
        [Fin (256/81), Fin (81/256), Fin (1/16)] [Fin (3/4), Fin 0, Fin 0]
        [Fin (4/5), Fin (3/5), Fin 0])
     [Fin (4/3), Fin (3/4), Fin 2] (Text ''base_link'')
   = Inr (cabinet_tree turned_hinge [Fin 1, Fin 2, Fin 4]
            [(''filename'', Text ''body.obj''), (''scale'', Nums [Fin 1, Fin 1, Fin 1])]
            [Fin (256/81), Fin (81/256), Fin (1/16)] [Fin 1, Fin 0, Fin 0]
            [Fin (3/5), Fin (4/5), Fin 0],
          [Fin (3/4), Fin (4/3), Fin 2], Some (Text ''door''))"
  by (simp add: tree_eval cabinet_tree_def turned_hinge_def rotate_vector_3d_def rot_x_def
      rot_y_def rot_z_def)

lemma turned_back_2:
  "loop_body rotate_vector_3d
     (cabinet_tree turned_hinge [Fin 1, Fin 2, Fin 4]
        [(''filename'', Text ''body.obj''), (''scale'', Nums [Fin 1, Fin 1, Fin 1])]
        [Fin (256/81), Fin (81/256), Fin (1/16)] [Fin 1, Fin 0, Fin 0]
        [Fin (3/5), Fin (4/5), Fin 0])
     [Fin (3/4), Fin (4/3), Fin 2] (Text ''door'')
   = Inr (cabinet_tree turned_hinge [Fin 1, Fin 2, Fin 4]
            [(''filename'', Text ''body.obj''), (''scale'', Nums [Fin 1, Fin 1, Fin 1])]
            [Fin 1, Fin 1, Fin 1] [Fin 1, Fin 0, Fin 0] [Fin (3/5), Fin (4/5), Fin 0],
          [Fin (3/4), Fin (4/3), Fin 2], None)"
  by (simp add: tree_eval cabinet_tree_def turned_hinge_def)

lemma bwd_turned:
  "InteractiveObj2_init 2 rotate_vector_3d (scene_element [Fin 1, Fin 1, Fin 1])
      (bbox_of [Fin (3/4), Fin (4/3), Fin (1/2)])
      (cabinet_tree turned_hinge [Fin (27/64), Fin (128/27), Fin (1/2)]
         [(''filename'', Text ''body.obj''),
          (''scale'', Nums [Fin (81/256), Fin (256/81), Fin (1/16)])]
         [Fin (256/81), Fin (81/256), Fin (1/16)] [Fin (3/4), Fin 0, Fin 0]
         [Fin (4/5), Fin (3/5), Fin 0])
    = Some (Inr (cabinet_tree turned_hinge [Fin 1, Fin 2, Fin 4]
         [(''filename'', Text ''body.obj''), (''scale'', Nums [Fin 1, Fin 1, Fin 1])]
         [Fin 1, Fin 1, Fin 1] [Fin 1, Fin 0, Fin 0] [Fin (3/5), Fin (4/5), Fin 0]))"
  by (simp add: InteractiveObj2_init_def scene_element_def bbox_of_def base_scale_def
      err_bind_def np_subtract_def np_divide_def broadcast_def fsub_def numeral_2_eq_2
      turned_back_1 turned_back_2)

subsection \<open>The claim\<close>

lemma base_scale_inverse:
  assumes "nz3 target" and "nz3 original"
  shows "np_divide target original = Inr (map2 fdiv target original)"
    and "nz3 (map2 fdiv target original)"
    and "np_divide original target = Inr (inv3 (map2 fdiv target original))"
proof -
  from assms(1) obtain a b c where t: "target = [Fin a, Fin b, Fin c]"
    and "a \<noteq> 0" "b \<noteq> 0" "c \<noteq> 0" by (rule nz3E)
  moreover from assms(2) obtain x y z where o: "original = [Fin x, Fin y, Fin z]"
    and "x \<noteq> 0" "y \<noteq> 0" "z \<noteq> 0" by (rule nz3E)
  ultimately show "np_divide target original = Inr (map2 fdiv target original)"
    and "nz3 (map2 fdiv target original)"
    and "np_divide original target = Inr (inv3 (map2 fdiv target original))"
    by (simp_all add: np_divide_def broadcast_def inv3_def)
qed

text \<open>
  C3 as the specification states it: for every tree and every target box, with a stored
  box without zero component, rescaling forth and back recovers every value. Four inputs
  where it does not. With the target (0,1,1) the way back divides by zero, and the mesh
  scale (1,2,4) comes back as (NaN,2,4). With a joint rotated by the angle whose cosine is
  3/5, target (1,2,1) and stored box (1,1,1), the origin (1,1,1) of the arm comes back as
  (121/25, 1/25, 1): the rotated inverse scale is not the inverse of the rotated scale.
  An axis (2,0,0), which is not of magnitude 1, is normalised on the way forth and comes
  back as (1,0,0). A mesh scale of one component, 2, is broadcast on the way forth and
  comes back as (2,2,2).
\<close>

theorem round_trip_counterexample:
  "InteractiveObj2_init 1 rotate_vector_3d (scene_element [Fin 0, Fin 1, Fin 1])
      (bbox_of [Fin 1, Fin 1, Fin 1])
      (chair_tree [(''filename'', Text ''chair.obj''), (''scale'', Nums [Fin 1, Fin 2, Fin 4])])
     = Some (Inr (chair_tree [(''filename'', Text ''chair.obj''),
                             (''scale'', Nums [Fin 0, Fin 2, Fin 4])]))
   \<and> InteractiveObj2_init 1 rotate_vector_3d (scene_element [Fin 1, Fin 1, Fin 1])
      (bbox_of [Fin 0, Fin 1, Fin 1])
      (chair_tree [(''filename'', Text ''chair.obj''), (''scale'', Nums [Fin 0, Fin 2, Fin 4])])
     = Some (Inr (chair_tree [(''filename'', Text ''chair.obj''),
                             (''scale'', Nums [NaN, Fin 2, Fin 4])]))
   \<and> readings (chair_tree [(''filename'', Text ''chair.obj''),
                           (''scale'', Nums [NaN, Fin 2, Fin 4])])
       \<noteq> readings (chair_tree [(''filename'', Text ''chair.obj''),
                               (''scale'', Nums [Fin 1, Fin 2, Fin 4])])
   \<and> InteractiveObj2_init 2 rotate_vector_3d (scene_element [Fin 1, Fin 2, Fin 1])
      (bbox_of [Fin 1, Fin 1, Fin 1]) (arm_tree [Fin 1, Fin 1, Fin 1])
     = Some (Inr (arm_tree [Fin (121/25), Fin (4/25), Fin 1]))
   \<and> InteractiveObj2_init 2 rotate_vector_3d (scene_element [Fin 1, Fin 1, Fin 1])
      (bbox_of [Fin 1, Fin 2, Fin 1]) (arm_tree [Fin (121/25), Fin (4/25), Fin 1])
     = Some (Inr (arm_tree [Fin (121/25), Fin (1/25), Fin 1]))
   \<and> readings (arm_tree [Fin (121/25), Fin (1/25), Fin 1])
       \<noteq> readings (arm_tree [Fin 1, Fin 1, Fin 1])
   \<and> InteractiveObj2_init 2 rotate_vector_3d (scene_element [Fin 2, Fin 2, Fin 2])
      (bbox_of [Fin 1, Fin 1, Fin 1]) (door_tree [Fin 2, Fin 0, Fin 0])
     = Some (Inr (door_tree [Fin 1, Fin 0, Fin 0]))
   \<and> InteractiveObj2_init 2 rotate_vector_3d (scene_element [Fin 1, Fin 1, Fin 1])
      (bbox_of [Fin 2, Fin 2, Fin 2]) (door_tree [Fin 1, Fin 0, Fin 0])
     = Some (Inr (door_tree [Fin 1, Fin 0, Fin 0]))
   \<and> readings (door_tree [Fin 1, Fin 0, Fin 0]) \<noteq> readings (door_tree [Fin 2, Fin 0, Fin 0])
   \<and> InteractiveObj2_init 1 rotate_vector_3d (scene_element [Fin 2, Fin 1, Fin (1/2)])
      (bbox_of [Fin 1, Fin 1, Fin 1])
      (chair_tree [(''filename'', Text ''chair.obj''), (''scale'', Nums [Fin 2])])
     = Some (Inr (chair_tree [(''filename'', Text ''chair.obj''),
                             (''scale'', Nums [Fin 32, Fin 2, Fin (1/8)])]))
   \<and> InteractiveObj2_init 1 rotate_vector_3d (scene_element [Fin 1, Fin 1, Fin 1])
      (bbox_of [Fin 2, Fin 1, Fin (1/2)])
      (chair_tree [(''filename'', Text ''chair.obj''),
                   (''scale'', Nums [Fin 32, Fin 2, Fin (1/8)])])
     = Some (Inr (chair_tree [(''filename'', Text ''chair.obj''),
                             (''scale'', Nums [Fin 2, Fin 2, Fin 2])]))
   \<and> readings (chair_tree [(''filename'', Text ''chair.obj''),
                           (''scale'', Nums [Fin 2, Fin 2, Fin 2])])
       \<noteq> readings (chair_tree [(''filename'', Text ''chair.obj''), (''scale'', Nums [Fin 2])])"
proof -
  have "readings (chair_tree [(''filename'', Text ''chair.obj''),
                             (''scale'', Nums [NaN, Fin 2, Fin 4])])
       \<noteq> readings (chair_tree [(''filename'', Text ''chair.obj''),
                               (''scale'', Nums [Fin 1, Fin 2, Fin 4])])"
    by (simp add: chair_tree_def link_el_def mesh_el_def numeric_def value_of_def)
  moreover have "readings (arm_tree [Fin (121/25), Fin (1/25), Fin 1])
       \<noteq> readings (arm_tree [Fin 1, Fin 1, Fin 1])"
    by (simp add: arm_tree_def link_el_def joint_el_def numeric_def value_of_def)
  moreover have "readings (door_tree [Fin 1, Fin 0, Fin 0])
       \<noteq> readings (door_tree [Fin 2, Fin 0, Fin 0])"
    by (simp add: door_tree_def link_el_def joint_el_def numeric_def value_of_def)
  moreover have "readings (chair_tree [(''filename'', Text ''chair.obj''),
                           (''scale'', Nums [Fin 2, Fin 2, Fin 2])])
       \<noteq> readings (chair_tree [(''filename'', Text ''chair.obj''), (''scale'', Nums [Fin 2])])"
    by (simp add: chair_tree_def link_el_def mesh_el_def numeric_def value_of_def)
  ultimately show ?thesis
    using fwd_flat bwd_flat fwd_arm bwd_arm fwd_long bwd_long fwd_single bwd_single by blast
qed

text \<open>
  C3, amended. Take a tree in which every mesh scale, origin and axis is a finite
  3-vector, every axis has magnitude 1 and every rotation that a joint declares is
  axis-aligned, and a target and a stored bounding box that are finite 3-vectors without
  zero component. Let the quotient of the two boxes, the values of the tree and the values
  of the rescaled tree be ranged. If rescaling to the target completes, then rescaling the
  result with the two boxes exchanged completes within the same number of passes, and
  every mesh scale, origin and axis of the tree it returns has the value it had before the
  first rescaling, a mesh without a scale counting as (1,1,1). The numbers of the model are
  exact, so the values are equal here, and the proof has no use for the three range
  conditions: they confine the claim to the inputs on which no float64 product or quotient
  of the two runs overflows or underflows.
\<close>

theorem round_trip_with_aligned_rotations:
  assumes "wf_tree tree" and "aligned rot tree" and "nz3 target" and "nz3 original"
    and "ranged3 (map2 fdiv target original)" and "ranged_tree tree" and "ranged_tree tree1"
    and "map_of xml_element ''bounding_box'' = Some (Nums target)"
    and "map_of data ''max'' = Some bbox_max" and "map_of data ''min'' = Some bbox_min"
    and "np_subtract bbox_max bbox_min = Inr original"
    and "map_of xml_element' ''bounding_box'' = Some (Nums original)"
    and "map_of data' ''max'' = Some bbox_max'" and "map_of data' ''min'' = Some bbox_min'"
    and "np_subtract bbox_max' bbox_min' = Inr target"
    and "InteractiveObj2_init k rot xml_element data tree = Some (Inr tree1)"
  shows "\<exists>tree2. InteractiveObj2_init k rot xml_element' data' tree1 = Some (Inr tree2)
           \<and> readings tree2 = readings tree"
proof -
  define s where "s = map2 fdiv target original"
  note bs = base_scale_inverse[OF assms(3,4), folded s_def]
  have ft: "floats (Nums target) = Inr target" and fo: "floats (Nums original) = Inr original"
    using assms(3,4) by (simp_all add: floats_fin3 nz3_fin3)
  have b1: "base_scale (Nums target) data = Inr s"
    using assms(9,10,11) bs(1) ft by (simp add: base_scale_def err_bind_def)
  have b2: "base_scale (Nums original) data' = Inr (inv3 s)"
    using assms(13,14,15) bs(3) fo by (simp add: base_scale_def err_bind_def)
  from assms(16) assms(8) b1 obtain s1 where
    run: "while_loop k rot tree s (Some (Text ''base_link'')) = Some (Inr (tree1, s1))"
    by (auto simp: InteractiveObj2_init_def dest!: map_sum_Inr)
  from round_trip_loop[OF assms(1,2) bs(2) run] obtain tree2 where
    r2: "while_loop k rot tree1 (inv3 s) (Some (Text ''base_link''))
          = Some (Inr (tree2, inv3 s1))"
    and rd: "readings tree2 = readings tree" by blast
  have "InteractiveObj2_init k rot xml_element' data' tree1 = Some (Inr tree2)"
    using assms(12) b2 r2 by (simp add: InteractiveObj2_init_def)
  with rd show ?thesis by blast
qed

lemma wf_turned:
  "wf_tree (cabinet_tree turned_hinge [Fin 1, Fin 2, Fin 4] [(''filename'', Text ''body.obj'')]
         [Fin 1, Fin 1, Fin 1] [Fin 1, Fin 0, Fin 0] [Fin (3/5), Fin (4/5), Fin 0])"
  by (simp add: cabinet_tree_def link_el_def joint_el_def mesh_el_def wf_node_def wf_value_def
      norm_vec_def)

lemma aligned_turned:
  "aligned rotate_vector_3d
     (cabinet_tree turned_hinge [Fin 1, Fin 2, Fin 4] [(''filename'', Text ''body.obj'')]
         [Fin 1, Fin 1, Fin 1] [Fin 1, Fin 0, Fin 0] [Fin (3/5), Fin (4/5), Fin 0])"
  by (simp add: aligned_def cabinet_tree_def turned_hinge_def link_el_def joint_el_def
      quarter_yaw)

lemma ranged_turned:
  "ranged_tree (cabinet_tree turned_hinge [Fin 1, Fin 2, Fin 4] [(''filename'', Text ''body.obj'')]
         [Fin 1, Fin 1, Fin 1] [Fin 1, Fin 0, Fin 0] [Fin (3/5), Fin (4/5), Fin 0])"
  "ranged_tree (cabinet_tree turned_hinge [Fin (27/64), Fin (128/27), Fin (1/2)]
         [(''filename'', Text ''body.obj''),
          (''scale'', Nums [Fin (81/256), Fin (256/81), Fin (1/16)])]
         [Fin (256/81), Fin (81/256), Fin (1/16)] [Fin (3/4), Fin 0, Fin 0]
         [Fin (4/5), Fin (3/5), Fin 0])"
  by (simp_all add: cabinet_tree_def link_el_def joint_el_def mesh_el_def numeric_def
      value_of_def ranged_def)

theorem round_trip_with_aligned_rotations_witness:
  "wf_tree (cabinet_tree turned_hinge [Fin 1, Fin 2, Fin 4] [(''filename'', Text ''body.obj'')]
         [Fin 1, Fin 1, Fin 1] [Fin 1, Fin 0, Fin 0] [Fin (3/5), Fin (4/5), Fin 0])
   \<and> aligned rotate_vector_3d
       (cabinet_tree turned_hinge [Fin 1, Fin 2, Fin 4] [(''filename'', Text ''body.obj'')]
         [Fin 1, Fin 1, Fin 1] [Fin 1, Fin 0, Fin 0] [Fin (3/5), Fin (4/5), Fin 0])
   \<and> \<not> no_rpy (cabinet_tree turned_hinge [Fin 1, Fin 2, Fin 4] [(''filename'', Text ''body.obj'')]
         [Fin 1, Fin 1, Fin 1] [Fin 1, Fin 0, Fin 0] [Fin (3/5), Fin (4/5), Fin 0])
   \<and> nz3 [Fin (3/4), Fin (4/3), Fin (1/2)] \<and> nz3 [Fin 1, Fin 1, Fin 1]
   \<and> ranged3 (map2 fdiv [Fin (3/4), Fin (4/3), Fin (1/2)] [Fin 1, Fin 1, Fin 1])
   \<and> ranged_tree (cabinet_tree turned_hinge [Fin 1, Fin 2, Fin 4]
         [(''filename'', Text ''body.obj'')]
         [Fin 1, Fin 1, Fin 1] [Fin 1, Fin 0, Fin 0] [Fin (3/5), Fin (4/5), Fin 0])
   \<and> ranged_tree (cabinet_tree turned_hinge [Fin (27/64), Fin (128/27), Fin (1/2)]
         [(''filename'', Text ''body.obj''),
          (''scale'', Nums [Fin (81/256), Fin (256/81), Fin (1/16)])]
         [Fin (256/81), Fin (81/256), Fin (1/16)] [Fin (3/4), Fin 0, Fin 0]
         [Fin (4/5), Fin (3/5), Fin 0])
   \<and> InteractiveObj2_init 2 rotate_vector_3d (scene_element [Fin (3/4), Fin (4/3), Fin (1/2)])
      (bbox_of [Fin 1, Fin 1, Fin 1])
      (cabinet_tree turned_hinge [Fin 1, Fin 2, Fin 4] [(''filename'', Text ''body.obj'')]
         [Fin 1, Fin 1, Fin 1] [Fin 1, Fin 0, Fin 0] [Fin (3/5), Fin (4/5), Fin 0])
    = Some (Inr (cabinet_tree turned_hinge [Fin (27/64), Fin (128/27), Fin (1/2)]
         [(''filename'', Text ''body.obj''),
          (''scale'', Nums [Fin (81/256), Fin (256/81), Fin (1/16)])]
         [Fin (256/81), Fin (81/256), Fin (1/16)] [Fin (3/4), Fin 0, Fin 0]
         [Fin (4/5), Fin (3/5), Fin 0]))
   \<and> InteractiveObj2_init 2 rotate_vector_3d (scene_element [Fin 1, Fin 1, Fin 1])
      (bbox_of [Fin (3/4), Fin (4/3), Fin (1/2)])
      (cabinet_tree turned_hinge [Fin (27/64), Fin (128/27), Fin (1/2)]
         [(''filename'', Text ''body.obj''),
          (''scale'', Nums [Fin (81/256), Fin (256/81), Fin (1/16)])]
         [Fin (256/81), Fin (81/256), Fin (1/16)] [Fin (3/4), Fin 0, Fin 0]
         [Fin (4/5), Fin (3/5), Fin 0])
    = Some (Inr (cabinet_tree turned_hinge [Fin 1, Fin 2, Fin 4]
         [(''filename'', Text ''body.obj''), (''scale'', Nums [Fin 1, Fin 1, Fin 1])]
         [Fin 1, Fin 1, Fin 1] [Fin 1, Fin 0, Fin 0] [Fin (3/5), Fin (4/5), Fin 0]))
   \<and> (\<exists>tree2. InteractiveObj2_init 2 rotate_vector_3d (scene_element [Fin 1, Fin 1, Fin 1])
          (bbox_of [Fin (3/4), Fin (4/3), Fin (1/2)])
          (cabinet_tree turned_hinge [Fin (27/64), Fin (128/27), Fin (1/2)]
             [(''filename'', Text ''body.obj''),
              (''scale'', Nums [Fin (81/256), Fin (256/81), Fin (1/16)])]
             [Fin (256/81), Fin (81/256), Fin (1/16)] [Fin (3/4), Fin 0, Fin 0]
             [Fin (4/5), Fin (3/5), Fin 0])
          = Some (Inr tree2)
        \<and> readings tree2
          = readings (cabinet_tree turned_hinge [Fin 1, Fin 2, Fin 4]
              [(''filename'', Text ''body.obj'')]
              [Fin 1, Fin 1, Fin 1] [Fin 1, Fin 0, Fin 0] [Fin (3/5), Fin (4/5), Fin 0]))"
proof -
  have 0: "\<not> no_rpy (cabinet_tree turned_hinge [Fin 1, Fin 2, Fin 4]
         [(''filename'', Text ''body.obj'')]
         [Fin 1, Fin 1, Fin 1] [Fin 1, Fin 0, Fin 0] [Fin (3/5), Fin (4/5), Fin 0])"
    by (simp add: no_rpy_def cabinet_tree_def turned_hinge_def link_el_def joint_el_def)
  have 3: "nz3 [Fin (3/4), Fin (4/3), Fin (1/2)]" and 4: "nz3 [Fin 1, Fin 1, Fin 1]"
    by simp_all
  have 5: "ranged3 (map2 fdiv [Fin (3/4), Fin (4/3), Fin (1/2)] [Fin 1, Fin 1, Fin 1])"
    by (simp add: ranged_def)
  have 8: "map_of (scene_element [Fin (3/4), Fin (4/3), Fin (1/2)]) ''bounding_box''
      = Some (Nums [Fin (3/4), Fin (4/3), Fin (1/2)])"
    and 9: "map_of (bbox_of [Fin 1, Fin 1, Fin 1]) ''max'' = Some [Fin 1, Fin 1, Fin 1]"
    and 10: "map_of (bbox_of [Fin 1, Fin 1, Fin 1]) ''min'' = Some [Fin 0, Fin 0, Fin 0]"
    and 11: "np_subtract [Fin 1, Fin 1, Fin 1] [Fin 0, Fin 0, Fin 0] = Inr [Fin 1, Fin 1, Fin 1]"
    and 12: "map_of (scene_element [Fin 1, Fin 1, Fin 1]) ''bounding_box''
      = Some (Nums [Fin 1, Fin 1, Fin 1])"
    and 13: "map_of (bbox_of [Fin (3/4), Fin (4/3), Fin (1/2)]) ''max''
      = Some [Fin (3/4), Fin (4/3), Fin (1/2)]"
    and 14: "map_of (bbox_of [Fin (3/4), Fin (4/3), Fin (1/2)]) ''min''
      = Some [Fin 0, Fin 0, Fin 0]"
    and 15: "np_subtract [Fin (3/4), Fin (4/3), Fin (1/2)] [Fin 0, Fin 0, Fin 0]
      = Inr [Fin (3/4), Fin (4/3), Fin (1/2)]"
    by (simp_all add: scene_element_def bbox_of_def np_subtract_def broadcast_def fsub_def)
  from round_trip_with_aligned_rotations [OF wf_turned aligned_turned 3 4 5 ranged_turned
      8 9 10 11 12 13 14 15 fwd_turned]
    wf_turned aligned_turned 0 3 4 5 ranged_turned fwd_turned bwd_turned
  show ?thesis by blast
qed

end
